theory Spec2Isabelle
  imports Complex_Main "HOL-Library.Sublist" "HOL-Library.Multiset"
begin

section \<open>JavaScript strings\<close>

text \<open>
  Strings are lists of characters; a character outside ASCII is the sequence of the
  bytes of its UTF-8 encoding. \<open>toLowerCase\<close> folds A-Z only: the server compares
  lowered strings only with ASCII literals that contain no letter with a non-ASCII upper
  case form, so the restriction does not change any comparison it makes.
\<close>

definition lower_char :: "char \<Rightarrow> char" where
  "lower_char c =
     (case map_of (zip ''ABCDEFGHIJKLMNOPQRSTUVWXYZ'' ''abcdefghijklmnopqrstuvwxyz'') c of
        Some l \<Rightarrow> l
      | None \<Rightarrow> c)"

definition toLowerCase :: "string \<Rightarrow> string" where
  "toLowerCase s = map lower_char s"

definition startsWith :: "string \<Rightarrow> string \<Rightarrow> bool" where
  "startsWith s p = (take (length p) s = p)"

definition endsWith :: "string \<Rightarrow> string \<Rightarrow> bool" where
  "endsWith s p = (length p \<le> length s \<and> drop (length s - length p) s = p)"

text \<open>
  The characters \<open>String.prototype.trim\<close> removes, the white space and the line
  terminators of ECMAScript: U+0009 to U+000D, U+0020, U+00A0, U+1680, U+2000 to U+200A,
  U+2028, U+2029, U+202F, U+205F, U+3000 and U+FEFF.
\<close>

definition white_space :: "string list" where
  "white_space =
     [[CHR 0x09], [CHR 0x0A], [CHR 0x0B], [CHR 0x0C], [CHR 0x0D], [CHR 0x20],
      [CHR 0xC2, CHR 0xA0],
      [CHR 0xE1, CHR 0x9A, CHR 0x80],
      [CHR 0xE2, CHR 0x80, CHR 0x80], [CHR 0xE2, CHR 0x80, CHR 0x81],
      [CHR 0xE2, CHR 0x80, CHR 0x82], [CHR 0xE2, CHR 0x80, CHR 0x83],
      [CHR 0xE2, CHR 0x80, CHR 0x84], [CHR 0xE2, CHR 0x80, CHR 0x85],
      [CHR 0xE2, CHR 0x80, CHR 0x86], [CHR 0xE2, CHR 0x80, CHR 0x87],
      [CHR 0xE2, CHR 0x80, CHR 0x88], [CHR 0xE2, CHR 0x80, CHR 0x89],
      [CHR 0xE2, CHR 0x80, CHR 0x8A],
      [CHR 0xE2, CHR 0x80, CHR 0xA8], [CHR 0xE2, CHR 0x80, CHR 0xA9],
      [CHR 0xE2, CHR 0x80, CHR 0xAF],
      [CHR 0xE2, CHR 0x81, CHR 0x9F],
      [CHR 0xE3, CHR 0x80, CHR 0x80],
      [CHR 0xEF, CHR 0xBB, CHR 0xBF]]"

text \<open>The string without the characters of \<open>ws\<close> it begins with.\<close>

function trim_start :: "string list \<Rightarrow> string \<Rightarrow> string" where
  "trim_start ws s =
     (case find (\<lambda>w. w \<noteq> [] \<and> take (length w) s = w) ws of
        None \<Rightarrow> s
      | Some w \<Rightarrow> trim_start ws (drop (length w) s))"
  by pat_completeness auto
termination
proof (relation "measure (\<lambda>(ws, s). length s)")
  show "wf (measure (\<lambda>(ws :: string list, s :: string). length s))" by simp
next
  fix ws :: "string list" and s w :: string
  assume "find (\<lambda>w. w \<noteq> [] \<and> take (length w) s = w) ws = Some w"
  then have w: "w \<noteq> [] \<and> take (length w) s = w"
    by (auto simp: find_Some_iff)
  then have "length (take (length w) s) = length w" by simp
  then have "length w \<le> length s" by simp
  then show "((ws, drop (length w) s), (ws, s)) \<in> measure (\<lambda>(ws, s). length s)"
    using w by (cases w) auto
qed

declare trim_start.simps [simp del]

definition trim :: "string \<Rightarrow> string" where
  "trim s = rev (trim_start (map rev white_space) (rev (trim_start white_space s)))"

text \<open>\<open>s.split(c)\<close> for a one-character separator: never the empty array.\<close>

fun split_on :: "char \<Rightarrow> string \<Rightarrow> string list" where
  "split_on c [] = [[]]"
| "split_on c (x # xs) =
     (if x = c then [] # split_on c xs
      else (case split_on c xs of
              [] \<Rightarrow> [[x]]
            | w # ws \<Rightarrow> (x # w) # ws))"

text \<open>\<open>xs.join(sep)\<close>.\<close>

fun join :: "string \<Rightarrow> string list \<Rightarrow> string" where
  "join sep [] = []"
| "join sep [x] = x"
| "join sep (x # y # ys) = x @ sep @ join sep (y # ys)"

text \<open>A value is truthy when it is neither \<open>null\<close> nor the empty string.\<close>

fun truthy :: "string option \<Rightarrow> string option" where
  "truthy None = None"
| "truthy (Some s) = (if s = [] then None else Some s)"

text \<open>
  A \<open>Set\<close> of strings keeps insertion order; \<open>add\<close> of a member changes nothing,
  \<open>size\<close> is the length and \<open>Array.from\<close> the list itself.
\<close>

definition set_add :: "string list \<Rightarrow> string \<Rightarrow> string list" where
  "set_add xs x = (if x \<in> set xs then xs else xs @ [x])"

section \<open>The URL class\<close>

text \<open>
  \<open>URL\<close> is the platform's class (the WHATWG URL Standard), not code of the server.
  A parsed URL is the Standard's URL record with its components in serialised form:
  \<open>u_port\<close> is the empty string for the null port, \<open>u_path\<close> is the serialised path and
  \<open>u_opaque\<close> tells whether the path is opaque (as in \<open>mailto:\<close>). The parser itself is a
  parameter of the model (see \<open>platform\<close>); getters, setters and the serialiser follow
  the Standard, as far as the server calls them:
  \<^item> \<open>hash = ''\<close> sets the fragment to null and \<open>search = ''\<close> the query to null;
  \<^item> \<open>protocol\<close> and \<open>hostname\<close> are only ever assigned their own lowered value; on a
    URL with an opaque path the host setter does nothing, otherwise it stores the host
    it is given (for the null host of a non-special URL that is the empty host);
  \<^item> \<open>port = ''\<close> sets the port to null;
  \<^item> \<open>pathname\<close> is only ever assigned a string made from the current path by deleting
    slashes, which the path parser reads back unchanged; on an opaque path the setter
    does nothing. (The rewriting of a drive letter segment \<open>C|\<close> in a \<open>file:\<close> URL is
    outside the model.)
\<close>

record url =
  u_scheme :: string
  u_username :: string
  u_password :: string
  u_host :: "string option"
  u_port :: string
  u_path :: string
  u_opaque :: bool
  u_query :: "string option"
  u_fragment :: "string option"

definition protocol :: "url \<Rightarrow> string" where
  "protocol u = u_scheme u @ '':''"

definition hostname :: "url \<Rightarrow> string" where
  "hostname u = (case u_host u of None \<Rightarrow> [] | Some h \<Rightarrow> h)"

definition port :: "url \<Rightarrow> string" where
  "port u = u_port u"

definition pathname :: "url \<Rightarrow> string" where
  "pathname u = u_path u"

definition search :: "url \<Rightarrow> string" where
  "search u = (case u_query u of None \<Rightarrow> [] | Some q \<Rightarrow> if q = [] then [] else ''?'' @ q)"

definition set_hash_empty :: "url \<Rightarrow> url" where
  "set_hash_empty u = u\<lparr>u_fragment := None\<rparr>"

definition set_protocol :: "url \<Rightarrow> string \<Rightarrow> url" where
  "set_protocol u v = u\<lparr>u_scheme := takeWhile (\<lambda>c. c \<noteq> CHR '':'') v\<rparr>"

definition set_hostname :: "url \<Rightarrow> string \<Rightarrow> url" where
  "set_hostname u v = (if u_opaque u then u else u\<lparr>u_host := Some v\<rparr>)"

definition set_port_empty :: "url \<Rightarrow> url" where
  "set_port_empty u = u\<lparr>u_port := []\<rparr>"

definition set_search_empty :: "url \<Rightarrow> url" where
  "set_search_empty u = u\<lparr>u_query := None\<rparr>"

definition set_pathname :: "url \<Rightarrow> string \<Rightarrow> url" where
  "set_pathname u v = (if u_opaque u then u else u\<lparr>u_path := v\<rparr>)"

text \<open>The URL serialiser (\<open>toString\<close>, \<open>href\<close>).\<close>

definition toString :: "url \<Rightarrow> string" where
  "toString u =
     u_scheme u @ '':'' @
     (case u_host u of
        Some h \<Rightarrow>
          ''//'' @
          (if u_username u \<noteq> [] \<or> u_password u \<noteq> []
           then u_username u @ (if u_password u \<noteq> [] then '':'' @ u_password u else []) @ ''@''
           else []) @
          h @ (if u_port u = [] then [] else '':'' @ u_port u)
      | None \<Rightarrow> if \<not> u_opaque u \<and> startsWith (u_path u) ''//'' then ''/.'' else []) @
     u_path u @
     (case u_query u of None \<Rightarrow> [] | Some q \<Rightarrow> ''?'' @ q) @
     (case u_fragment u of None \<Rightarrow> [] | Some f \<Rightarrow> ''#'' @ f)"

section \<open>The platform\<close>

text \<open>
  What the server gets from Node and its libraries is a parameter of every function
  below, so that the theorems hold for whatever these return:
  \<^item> \<open>parseURL s\<close> is \<open>new URL(s)\<close> and \<open>resolveURL href base\<close> is \<open>new URL(href, base)\<close>,
    \<open>None\<close> when the constructor throws;
  \<^item> \<open>urlencoded_parse\<close> and \<open>urlencoded_serialize\<close> are the
    \<open>application/x-www-form-urlencoded\<close> parser and serialiser behind \<open>searchParams\<close>;
  \<^item> \<open>localeCompare a b\<close> is \<open>a.localeCompare(b)\<close>;
  \<^item> \<open>httpGet\<close> is the crawler's axios instance and \<open>robotsGet\<close> the request for
    \<open>robots.txt\<close>, \<open>Failed\<close> when the promise rejects;
  \<^item> the second field of a \<open>Response\<close> is \<open>String(resp.data || '')\<close>, the text of the answer
    that the crawler hashes (axios gives a body that is JSON as the parsed value, which
    need not be a string);
  \<^item> \<open>hrefs html\<close> is what \<open>cheerio.load\<close> and \<open>$('a[href]')\<close> make of the answer with the
    text \<open>html\<close>: \<open>None\<close> when they throw, as \<open>cheerio.load\<close> does for an answer that is a
    number, and otherwise the \<open>href\<close> attributes of the \<open>a[href]\<close> elements in document
    order (the crawler loads at most one answer of each text, since it stores the hash of
    the text before it loads the answer);
  \<^item> \<open>sha256\<close> is the hex digest of a string;
  \<^item> \<open>today\<close> is \<open>new Date().toISOString().split('T')[0]\<close>;
  \<^item> \<open>numberToString\<close> is the string a number has in a template literal.
\<close>

datatype response = Failed | Response int string

record platform =
  parseURL :: "string \<Rightarrow> url option"
  resolveURL :: "string \<Rightarrow> string \<Rightarrow> url option"
  urlencoded_parse :: "string \<Rightarrow> (string \<times> string) list"
  urlencoded_serialize :: "(string \<times> string) list \<Rightarrow> string"
  localeCompare :: "string \<Rightarrow> string \<Rightarrow> int"
  httpGet :: "string \<Rightarrow> response"
  robotsGet :: "string \<Rightarrow> response"
  hrefs :: "string \<Rightarrow> string list option"
  sha256 :: "string \<Rightarrow> string"
  today :: string
  numberToString :: "rat \<Rightarrow> string"

text \<open>\<open>url.searchParams\<close>: the name-value pairs of the query.\<close>

definition searchParams :: "platform \<Rightarrow> url \<Rightarrow> (string \<times> string) list" where
  "searchParams P u = (case u_query u of None \<Rightarrow> [] | Some q \<Rightarrow> urlencoded_parse P q)"

text \<open>
  \<open>url.searchParams.append(k, v)\<close>: the pair is added to the object's list \<open>ps\<close> and the
  query becomes the serialised list (null if that is empty).
\<close>

definition searchParams_append ::
  "platform \<Rightarrow> url \<times> (string \<times> string) list \<Rightarrow> string \<times> string \<Rightarrow> url \<times> (string \<times> string) list" where
  "searchParams_append P st kv =
     (let ps = snd st @ [kv]; q = urlencoded_serialize P ps
      in ((fst st)\<lparr>u_query := (if q = [] then None else Some q)\<rparr>, ps))"

text \<open>
  \<open>Array.prototype.sort\<close> with a comparator is stable: an element goes in front of the
  first element it does not compare greater than.
\<close>

fun insert_by :: "('a \<Rightarrow> 'a \<Rightarrow> int) \<Rightarrow> 'a \<Rightarrow> 'a list \<Rightarrow> 'a list" where
  "insert_by cmp x [] = [x]"
| "insert_by cmp x (y # ys) = (if cmp x y \<le> 0 then x # y # ys else y # insert_by cmp x ys)"

fun sort_by :: "('a \<Rightarrow> 'a \<Rightarrow> int) \<Rightarrow> 'a list \<Rightarrow> 'a list" where
  "sort_by cmp [] = []"
| "sort_by cmp (x # xs) = insert_by cmp x (sort_by cmp xs)"

section \<open>Helper utilities of server.js\<close>

definition trackingKeys :: "string list" where
  "trackingKeys = [''fbclid'', ''gclid'', ''utm_source'', ''utm_medium'', ''utm_campaign'',
                   ''utm_term'', ''utm_content'']"

text \<open>\<open>s.replace(/\/+/g, '/')\<close>.\<close>

fun collapse_slashes :: "string \<Rightarrow> string" where
  "collapse_slashes (a # b # s) =
     (if a = CHR ''/'' \<and> b = CHR ''/'' then collapse_slashes (b # s)
      else a # collapse_slashes (b # s))"
| "collapse_slashes s = s"

text \<open>The body of \<open>normalizeUrl\<close> after the URL is parsed, up to \<open>toString\<close>.\<close>

definition normalized :: "platform \<Rightarrow> url \<Rightarrow> url" where
  "normalized P urlObj0 =
     (let urlObj1 = set_hash_empty urlObj0;
          urlObj2 = set_protocol urlObj1 (toLowerCase (protocol urlObj1));
          urlObj3 = set_hostname urlObj2 (toLowerCase (hostname urlObj2));
          urlObj4 = (if (protocol urlObj3 = ''http:'' \<and> port urlObj3 = ''80'') \<or>
                        (protocol urlObj3 = ''https:'' \<and> port urlObj3 = ''443'')
                     then set_port_empty urlObj3 else urlObj3);
          params0 = filter (\<lambda>kv. fst kv \<notin> set trackingKeys) (searchParams P urlObj4);
          params = sort_by (\<lambda>a b. localeCompare P (fst a) (fst b)) params0;
          urlObj5 = set_search_empty urlObj4;
          urlObj6 = fst (foldl (searchParams_append P) (urlObj5, []) params);
          urlObj7 = set_pathname urlObj6 (collapse_slashes (pathname urlObj6));
          urlObj8 = (if length (pathname urlObj7) > 1 \<and> endsWith (pathname urlObj7) ''/''
                     then set_pathname urlObj7 (butlast (pathname urlObj7)) else urlObj7)
      in urlObj8)"

definition normalizeUrl :: "platform \<Rightarrow> string \<Rightarrow> string option" where
  "normalizeUrl P u =
     (case parseURL P u of
        None \<Rightarrow> None
      | Some urlObj \<Rightarrow> Some (toString (normalized P urlObj)))"

definition isInternalLink :: "platform \<Rightarrow> string \<Rightarrow> string \<Rightarrow> bool" where
  "isInternalLink P link startHost =
     (case parseURL P link of
        None \<Rightarrow> False
      | Some u \<Rightarrow> hostname u = startHost)"

definition resolveLink :: "platform \<Rightarrow> string \<Rightarrow> string \<Rightarrow> string option" where
  "resolveLink P href0 base =
     (if href0 = [] then None
      else let href = trim href0 in
        if startsWith href ''#'' \<or> startsWith href ''javascript:'' \<or>
           startsWith href ''mailto:'' \<or> startsWith href ''tel:'' then None
        else (case resolveURL P href base of
                None \<Rightarrow> None
              | Some r \<Rightarrow> Some (toString r)))"

definition resource_extensions :: "string list" where
  "resource_extensions =
     [''jpg'', ''jpeg'', ''png'', ''gif'', ''svg'', ''webp'', ''bmp'', ''pdf'', ''zip'', ''rar'',
      ''7z'', ''tar'', ''gz'', ''exe'', ''dmg'', ''iso'', ''mp4'', ''mp3'', ''ogg'', ''woff2'',
      ''woff'', ''ttf'', ''ico'']"

text \<open>
  The regular expression of \<open>isSkippableResource\<close>, tested at one position: a dot, one
  of the extensions in any case, then the end of the string or a question mark.
\<close>

definition extension_here :: "string \<Rightarrow> bool" where
  "extension_here t =
     (case t of
        [] \<Rightarrow> False
      | c # r \<Rightarrow> c = CHR ''.'' \<and>
          (\<exists>e \<in> set resource_extensions.
             toLowerCase (take (length e) r) = e \<and>
             (drop (length e) r = [] \<or> startsWith (drop (length e) r) ''?'')))"

fun regex_test :: "(string \<Rightarrow> bool) \<Rightarrow> string \<Rightarrow> bool" where
  "regex_test here [] = here []"
| "regex_test here (c # s) = (here (c # s) \<or> regex_test here s)"

definition isSkippableResource :: "platform \<Rightarrow> string \<Rightarrow> bool" where
  "isSkippableResource P link =
     (case parseURL P link of
        None \<Rightarrow> True
      | Some u \<Rightarrow> regex_test extension_here (pathname u @ search u))"

section \<open>robots.txt\<close>

text \<open>\<open>text.split(/\r?\n/)\<close>: the carriage return in front of a line feed goes with it.\<close>

definition split_lines :: "string \<Rightarrow> string list" where
  "split_lines text =
     (let pieces = split_on (CHR 0x0A) text
      in map (\<lambda>l. if endsWith l [CHR 0x0D] then butlast l else l) (butlast pieces) @ [last pieces])"

text \<open>
  \<open>agents\<close> is a plain object: besides the properties the parser stores (kept here in
  insertion order) a lookup finds the properties every object inherits. The agent names
  are lowered, so the only inherited names they can hit are \<open>constructor\<close> and
  \<open>__proto__\<close>; both values are truthy and neither has a \<open>push\<close> method.
\<close>

type_synonym agents = "(string \<times> string list) list"

definition inherited :: "string \<Rightarrow> bool" where
  "inherited k = (k = ''constructor'' \<or> k = ''__proto__'')"

text \<open>\<open>agents[a] = agents[a] || []; agents[a].push(value)\<close>; \<open>None\<close> is the TypeError.\<close>

definition push_rule :: "agents \<Rightarrow> string \<Rightarrow> string \<Rightarrow> agents option" where
  "push_rule agents a v =
     (case map_of agents a of
        Some rules \<Rightarrow> Some (map (\<lambda>kr. if fst kr = a then (a, snd kr @ [v]) else kr) agents)
      | None \<Rightarrow> if inherited a then None else Some (agents @ [(a, [v])]))"

fun push_rules :: "agents \<Rightarrow> string list \<Rightarrow> string \<Rightarrow> agents option" where
  "push_rules agents [] v = Some agents"
| "push_rules agents (a # as) v =
     (case push_rule agents a v of
        None \<Rightarrow> None
      | Some agents' \<Rightarrow> push_rules agents' as v)"

text \<open>One line of the file: the state is \<open>agents\<close> and \<open>currentAgents\<close>.\<close>

definition robots_line :: "agents \<times> string list \<Rightarrow> string \<Rightarrow> (agents \<times> string list) option" where
  "robots_line st line =
     (let agents = fst st; currentAgents = snd st in
      if line = [] \<or> startsWith line ''#'' then Some st
      else (case split_on (CHR '':'') line of
              [] \<Rightarrow> Some st
            | rawKey # rest \<Rightarrow>
                if rawKey = [] \<or> length rest = 0 then Some st
                else let key = toLowerCase (trim rawKey); v = trim (join '':'' rest) in
                  if key = ''user-agent'' then
                    (let a = toLowerCase v in
                     Some (if map_of agents a = None \<and> \<not> inherited a then agents @ [(a, [])]
                           else agents, [a]))
                  else if key = ''disallow'' then
                    (if length currentAgents = 0 then
                       (case push_rule agents ''*'' v of
                          None \<Rightarrow> None
                        | Some agents' \<Rightarrow> Some (agents', currentAgents))
                     else
                       (case push_rules agents currentAgents v of
                          None \<Rightarrow> None
                        | Some agents' \<Rightarrow> Some (agents', currentAgents)))
                  else Some st))"

fun robots_lines :: "agents \<times> string list \<Rightarrow> string list \<Rightarrow> (agents \<times> string list) option" where
  "robots_lines st [] = Some st"
| "robots_lines st (l # ls) =
     (case robots_line st l of
        None \<Rightarrow> None
      | Some st' \<Rightarrow> robots_lines st' ls)"

text \<open>
  \<open>if (agentKeys.includes(a)) agents[a].forEach(...)\<close>: the rules stored under one
  agent name, none if the lowered keys do not include it. \<open>None\<close> is the TypeError of
  a name that is among the lowered keys without being a key.
\<close>

definition rules_of :: "agents \<Rightarrow> string \<Rightarrow> string list option" where
  "rules_of agents a =
     (if a \<in> set (map (\<lambda>k. toLowerCase (fst k)) agents)
      then map_of agents a
      else Some [])"

text \<open>
  The parser of \<open>fetchRobots\<close>, from the text of the file to the disallow set. An
  exception is caught by the function's \<open>catch\<close>, which returns the empty set.
\<close>

definition parseRobots :: "string \<Rightarrow> string list" where
  "parseRobots text =
     (let lines = map trim (split_lines text) in
      case robots_lines ([], []) lines of
        None \<Rightarrow> []
      | Some st \<Rightarrow>
          (let agents = fst st in
           case rules_of agents ''sitemap-generator'' of
             None \<Rightarrow> []
           | Some own \<Rightarrow>
               (case rules_of agents ''*'' of
                  None \<Rightarrow> []
                | Some wildcard \<Rightarrow> foldl set_add (foldl set_add [] own) wildcard)))"

definition fetchRobots :: "platform \<Rightarrow> string \<Rightarrow> string list" where
  "fetchRobots P baseUrl =
     (case resolveURL P ''/robots.txt'' baseUrl of
        None \<Rightarrow> []
      | Some r \<Rightarrow>
          (case robotsGet P (toString r) of
             Failed \<Rightarrow> []
           | Response status data \<Rightarrow> parseRobots data))"

definition isPathAllowed :: "string \<Rightarrow> string list \<Rightarrow> bool" where
  "isPathAllowed path disallow =
     (\<forall>pattern \<in> set disallow. pattern = [] \<or> \<not> startsWith path pattern)"

section \<open>The crawler\<close>

datatype action =
    SkippedResource
  | DisallowedByRobots string
  | InvalidUrl
  | Fetching
  | Non2xxStatus int
  | DuplicateContent "string option"
  | Fetched string
  | Discovered string
  | FetchError

record debug_entry =
  d_url :: string
  d_normalized :: string
  d_action :: action

text \<open>The local variables of \<open>crawlWebsite\<close> that the loop changes.\<close>

record crawl_state =
  visited :: "string list"
  discovered :: "string list"
  queue :: "string list"
  contentHashes :: "(string \<times> string) list"
  debug :: "debug_entry list"

definition push_debug :: "bool \<Rightarrow> string \<Rightarrow> string \<Rightarrow> action \<Rightarrow> crawl_state \<Rightarrow> crawl_state" where
  "push_debug includeDebug u n a s =
     (if includeDebug
      then s\<lparr>debug := debug s @ [\<lparr>d_url = u, d_normalized = n, d_action = a\<rparr>]\<rparr>
      else s)"

text \<open>\<open>discovered.add(normalizedCurrent)\<close>, the debug record, \<open>continue\<close>.\<close>

definition mark_discovered ::
  "bool \<Rightarrow> string \<Rightarrow> string \<Rightarrow> action \<Rightarrow> crawl_state \<Rightarrow> crawl_state" where
  "mark_discovered includeDebug current normalizedCurrent a s =
     push_debug includeDebug current normalizedCurrent a
       (s\<lparr>discovered := set_add (discovered s) normalizedCurrent\<rparr>)"

text \<open>The callback of \<open>$('a[href]').each\<close>, for one \<open>href\<close>.\<close>

definition extract_link ::
  "platform \<Rightarrow> string \<Rightarrow> bool \<Rightarrow> string \<Rightarrow> string \<Rightarrow> crawl_state \<Rightarrow> string \<Rightarrow> crawl_state" where
  "extract_link P startHost includeDebug current normalizedCurrent s href =
     (case resolveLink P href current of
        None \<Rightarrow> s
      | Some resolved \<Rightarrow>
          if \<not> isInternalLink P resolved startHost then s
          else if isSkippableResource P resolved then s
          else (case truthy (normalizeUrl P resolved) of
                  None \<Rightarrow> s
                | Some n \<Rightarrow>
                    if n \<in> set (discovered s) then s
                    else push_debug includeDebug resolved n (Discovered normalizedCurrent)
                           (s\<lparr>discovered := set_add (discovered s) n,
                              queue := queue s @ [resolved]\<rparr>)))"

text \<open>
  The second \<open>try\<close> block of the loop body and its \<open>catch\<close>: the request and what follows
  it. The block throws when the request is rejected and when cheerio throws; by then the
  hash of the answer is stored and the record \<open>fetched\<close> is written. The callback of
  \<open>each\<close> catches what it throws itself.
\<close>

definition fetch_page ::
  "platform \<Rightarrow> string \<Rightarrow> bool \<Rightarrow> string \<Rightarrow> string \<Rightarrow> crawl_state \<Rightarrow> crawl_state" where
  "fetch_page P startHost includeDebug current normalizedCurrent s0 =
     (let s1 = push_debug includeDebug current normalizedCurrent Fetching s0 in
      case httpGet P current of
        Failed \<Rightarrow> mark_discovered includeDebug current normalizedCurrent FetchError s1
      | Response status html \<Rightarrow>
          if status < 200 \<or> status \<ge> 300
          then mark_discovered includeDebug current normalizedCurrent (Non2xxStatus status) s1
          else
            (let hash = sha256 P html in
             if map_of (contentHashes s1) hash \<noteq> None
             then mark_discovered includeDebug current normalizedCurrent
                    (DuplicateContent (map_of (contentHashes s1) hash)) s1
             else
               (let s2 = s1\<lparr>contentHashes := contentHashes s1 @ [(hash, normalizedCurrent)]\<rparr>;
                    s3 = push_debug includeDebug current normalizedCurrent (Fetched (take 8 hash)) s2
                in case hrefs P html of
                     None \<Rightarrow> mark_discovered includeDebug current normalizedCurrent FetchError s3
                   | Some anchors \<Rightarrow>
                       (let s4 = foldl (extract_link P startHost includeDebug current
                                          normalizedCurrent) s3 anchors
                        in s4\<lparr>visited := set_add (visited s4) normalizedCurrent\<rparr>))))"

text \<open>One pass through the body of the \<open>while\<close> loop.\<close>

definition crawl_iteration ::
  "platform \<Rightarrow> string \<Rightarrow> string list \<Rightarrow> bool \<Rightarrow> crawl_state \<Rightarrow> crawl_state" where
  "crawl_iteration P startHost robots includeDebug s0 =
     (case queue s0 of
        [] \<Rightarrow> s0
      | current # rest \<Rightarrow>
          (let s = s0\<lparr>queue := rest\<rparr> in
           case truthy (normalizeUrl P current) of
             None \<Rightarrow> s
           | Some normalizedCurrent \<Rightarrow>
               if normalizedCurrent \<in> set (visited s) then s
               else if isSkippableResource P current
               then mark_discovered includeDebug current normalizedCurrent SkippedResource s
               else (case parseURL P current of
                       None \<Rightarrow> mark_discovered includeDebug current normalizedCurrent InvalidUrl s
                     | Some u \<Rightarrow>
                         if \<not> isPathAllowed (pathname u) robots
                         then mark_discovered includeDebug current normalizedCurrent
                                (DisallowedByRobots (pathname u)) s
                         else fetch_page P startHost includeDebug current normalizedCurrent s)))"

function crawl_loop ::
  "platform \<Rightarrow> string \<Rightarrow> string list \<Rightarrow> bool \<Rightarrow> nat \<Rightarrow> crawl_state \<Rightarrow> crawl_state" where
  "crawl_loop P startHost robots includeDebug maxPages s =
     (if length (queue s) > 0 \<and> length (visited s) < maxPages
      then crawl_loop P startHost robots includeDebug maxPages
             (crawl_iteration P startHost robots includeDebug s)
      else s)"
  by pat_completeness auto
termination
proof (relation "measures [\<lambda>(P, startHost, robots, includeDebug, maxPages, s). maxPages - length (visited s),
                           \<lambda>(P, startHost, robots, includeDebug, maxPages, s). length (queue s)]")
  show "wf (measures [\<lambda>(P, startHost, robots, includeDebug, maxPages, s). maxPages - length (visited s),
                      \<lambda>(P, startHost, robots, includeDebug, maxPages, s :: crawl_state). length (queue s)])"
    by simp
next
  fix P :: platform and startHost :: string and robots :: "string list"
    and includeDebug :: bool and maxPages :: nat and s :: crawl_state
  assume run: "0 < length (queue s) \<and> length (visited s) < maxPages"
  have dbg: "visited (push_debug b c n a t) = visited t \<and> queue (push_debug b c n a t) = queue t"
    for b c n a t
    by (simp add: push_debug_def)
  have links: "visited (foldl (extract_link P startHost includeDebug c n) t hs) = visited t"
    for c n t hs
    by (induction hs arbitrary: t)
       (simp_all add: extract_link_def dbg split: option.splits)
  have mark: "visited (mark_discovered includeDebug c n a t) = visited t
                \<and> queue (mark_discovered includeDebug c n a t) = queue t" for c n a t
    by (simp add: mark_discovered_def dbg)
  have fetch: "n \<notin> set (visited t) \<Longrightarrow>
      length (visited (fetch_page P startHost includeDebug c n t)) = Suc (length (visited t))
      \<or> (visited (fetch_page P startHost includeDebug c n t) = visited t
          \<and> queue (fetch_page P startHost includeDebug c n t) = queue t)" for c n t
    by (simp add: fetch_page_def Let_def links mark set_add_def dbg
             split: response.splits option.splits)
  obtain current rest where q: "queue s = current # rest"
    using run by (cases "queue s") auto
  have "length (visited (crawl_iteration P startHost robots includeDebug s)) = Suc (length (visited s))
        \<or> (visited (crawl_iteration P startHost robots includeDebug s) = visited s
            \<and> length (queue (crawl_iteration P startHost robots includeDebug s)) < length (queue s))"
  proof (cases "truthy (normalizeUrl P current)")
    case None
    then show ?thesis by (simp add: crawl_iteration_def q)
  next
    case (Some n)
    show ?thesis
    proof (cases "n \<in> set (visited s)")
      case True
      then show ?thesis by (simp add: crawl_iteration_def q Some)
    next
      case False
      with fetch [of n "s\<lparr>queue := rest\<rparr>" current]
      have "length (visited (fetch_page P startHost includeDebug current n (s\<lparr>queue := rest\<rparr>)))
              = Suc (length (visited s))
            \<or> (visited (fetch_page P startHost includeDebug current n (s\<lparr>queue := rest\<rparr>)) = visited s
                \<and> queue (fetch_page P startHost includeDebug current n (s\<lparr>queue := rest\<rparr>)) = rest)"
        by simp
      then show ?thesis
        by (auto simp: crawl_iteration_def q Some False Let_def mark split: option.splits)
    qed
  qed
  then show "((P, startHost, robots, includeDebug, maxPages,
               crawl_iteration P startHost robots includeDebug s),
              (P, startHost, robots, includeDebug, maxPages, s))
             \<in> measures [\<lambda>(P, startHost, robots, includeDebug, maxPages, s). maxPages - length (visited s),
                         \<lambda>(P, startHost, robots, includeDebug, maxPages, s). length (queue s)]"
    using run by auto
qed

declare crawl_loop.simps [simp del]

text \<open>
  \<open>crawlWebsite\<close>: the state before the loop, the loop, the result. \<open>None\<close> is the
  exception of \<open>new URL(startUrl)\<close>. The wall-clock field \<open>crawlTimeSeconds\<close> of the
  statistics is left out.
\<close>

definition initial_state :: "platform \<Rightarrow> string \<Rightarrow> crawl_state" where
  "initial_state P startUrl =
     (let s0 = \<lparr>visited = [], discovered = [], queue = [startUrl], contentHashes = [], debug = []\<rparr>
      in case truthy (normalizeUrl P startUrl) of
           None \<Rightarrow> s0
         | Some nStart \<Rightarrow> s0\<lparr>discovered := set_add (discovered s0) nStart\<rparr>)"

record crawl_stats =
  urlsDiscovered :: nat
  urlsInSitemap :: nat

record crawl_result =
  r_discovered :: "string list"
  r_visited :: "string list"
  r_stats :: crawl_stats
  r_debug :: "debug_entry list option"

definition final_state :: "platform \<Rightarrow> string \<Rightarrow> nat \<Rightarrow> bool \<Rightarrow> crawl_state option" where
  "final_state P startUrl maxPages includeDebug =
     (case parseURL P startUrl of
        None \<Rightarrow> None
      | Some su \<Rightarrow>
          Some (crawl_loop P (hostname su) (fetchRobots P startUrl) includeDebug maxPages
                  (initial_state P startUrl)))"

definition crawlWebsite :: "platform \<Rightarrow> string \<Rightarrow> nat \<Rightarrow> bool \<Rightarrow> crawl_result option" where
  "crawlWebsite P startUrl maxPages includeDebug =
     (case final_state P startUrl maxPages includeDebug of
        None \<Rightarrow> None
      | Some s \<Rightarrow>
          Some \<lparr>r_discovered = filter (\<lambda>x. x \<noteq> []) (discovered s),
                r_visited = filter (\<lambda>x. x \<noteq> []) (visited s),
                r_stats = \<lparr>urlsDiscovered = length (discovered s),
                           urlsInSitemap = length (visited s)\<rparr>,
                r_debug = (if includeDebug then Some (debug s) else None)\<rparr>)"

section \<open>The sitemap document\<close>

definition escapeXml :: "string \<Rightarrow> string" where
  "escapeXml unsafe =
     concat (map (\<lambda>c. if c = CHR ''<'' then ''&lt;''
                       else if c = CHR ''>'' then ''&gt;''
                       else if c = CHR ''&'' then ''&amp;''
                       else if c = CHR 0x22 then ''&quot;''
                       else if c = CHR 0x27 then ''&apos;''
                       else [c]) unsafe)"

text \<open>The options object; \<open>None\<close> is a property that is missing or \<open>undefined\<close>.\<close>

record sitemap_options =
  o_changeFreq :: "string option"
  o_priority :: "rat option"
  o_includeLastMod :: "bool option"

text \<open>The callback of \<open>urls.map\<close>: the entry of one URL.\<close>

definition url_entry :: "platform \<Rightarrow> string \<Rightarrow> rat \<Rightarrow> bool \<Rightarrow> string option \<Rightarrow> string \<Rightarrow> string" where
  "url_entry P changeFreq priority includeLastMod lastmod loc =
     ''  <url>'' @ [CHR 0x0A] @
     ''    <loc>'' @ escapeXml loc @ ''</loc>'' @ [CHR 0x0A] @
     (case truthy lastmod of
        Some l \<Rightarrow>
          if includeLastMod then ''    <lastmod>'' @ l @ ''</lastmod>'' @ [CHR 0x0A] else []
      | None \<Rightarrow> []) @
     (if changeFreq \<noteq> []
      then ''    <changefreq>'' @ changeFreq @ ''</changefreq>'' @ [CHR 0x0A] else []) @
     ''    <priority>'' @ numberToString P priority @ ''</priority>'' @ [CHR 0x0A] @
     ''  </url>''"

definition generateSitemapXML :: "platform \<Rightarrow> string list \<Rightarrow> sitemap_options \<Rightarrow> string" where
  "generateSitemapXML P urls options =
     (let changeFreq = (case o_changeFreq options of None \<Rightarrow> ''weekly'' | Some c \<Rightarrow> c);
          priority = (case o_priority options of None \<Rightarrow> 1 / 2 | Some p \<Rightarrow> p);
          includeLastMod = (case o_includeLastMod options of None \<Rightarrow> False | Some b \<Rightarrow> b);
          lastmod = (if includeLastMod then Some (today P) else None);
          urlEntries = map (url_entry P changeFreq priority includeLastMod lastmod) urls
      in ''<?xml version='' @ [CHR 0x22] @ ''1.0'' @ [CHR 0x22] @ '' encoding='' @ [CHR 0x22] @
         ''UTF-8'' @ [CHR 0x22] @ ''?>'' @ [CHR 0x0A] @
         ''<urlset xmlns='' @ [CHR 0x22] @ ''http://www.sitemaps.org/schemas/sitemap/0.9'' @
         [CHR 0x22] @ ''>'' @ [CHR 0x0A] @
         join [CHR 0x0A] urlEntries @
         [CHR 0x0A] @ ''</urlset>'')"

text \<open>The number of places at which \<open>pat\<close> occurs in a string.\<close>

fun occurrences :: "string \<Rightarrow> string \<Rightarrow> nat" where
  "occurrences pat [] = (if pat = [] then 1 else 0)"
| "occurrences pat (c # s) = (if prefix pat (c # s) then 1 else 0) + occurrences pat s"

section \<open>Request validation\<close>

text \<open>
  The schema is written with Zod, which the repository pins at version 3.22. There
  \<open>optional()\<close> answers \<open>undefined\<close> for a missing property before the schema it wraps is
  run, \<open>default(d)\<close> answers \<open>d\<close> for a missing property, and the object schema leaves a
  missing property out of its result when the property's schema answers \<open>undefined\<close>.
  A missing property is \<open>None\<close>; a schema answers \<open>Inl\<close> for an issue.
\<close>

datatype json =
    JNull
  | JBool bool
  | JNumber rat
  | JString string
  | JArray "json list"
  | JObject "(string \<times> json) list"

type_synonym 'a schema = "json option \<Rightarrow> unit + 'a"

definition zod_optional :: "'a schema \<Rightarrow> 'a option schema" where
  "zod_optional inner i =
     (case i of
        None \<Rightarrow> Inr None
      | Some v \<Rightarrow> (case inner i of Inl e \<Rightarrow> Inl e | Inr a \<Rightarrow> Inr (Some a)))"

definition zod_default :: "'a \<Rightarrow> 'a schema \<Rightarrow> 'a schema" where
  "zod_default d inner i = (case i of None \<Rightarrow> Inr d | Some v \<Rightarrow> inner i)"

definition zod_boolean :: "bool schema" where
  "zod_boolean i = (case i of Some (JBool b) \<Rightarrow> Inr b | _ \<Rightarrow> Inl ())"

definition zod_enum :: "string list \<Rightarrow> string schema" where
  "zod_enum vs i = (case i of Some (JString s) \<Rightarrow> if s \<in> set vs then Inr s else Inl () | _ \<Rightarrow> Inl ())"

definition zod_number_min_max :: "rat \<Rightarrow> rat \<Rightarrow> rat schema" where
  "zod_number_min_max lo hi i =
     (case i of Some (JNumber x) \<Rightarrow> if lo \<le> x \<and> x \<le> hi then Inr x else Inl () | _ \<Rightarrow> Inl ())"

text \<open>
  The private-host test of the \<open>url\<close> refinement:
  \<open>/^(localhost|127\.0\.0\.1|192\.168\.|10\.|172\.(1[6-9]|2[0-9]|3[01]))/i\<close>.
\<close>

definition private_host :: "string \<Rightarrow> bool" where
  "private_host h =
     (let l = toLowerCase h in
      startsWith l ''localhost'' \<or> startsWith l ''127.0.0.1'' \<or> startsWith l ''192.168.'' \<or>
      startsWith l ''10.'' \<or>
      (startsWith l ''172.'' \<and>
       take 2 (drop 4 l) \<in> set [''16'', ''17'', ''18'', ''19'', ''20'', ''21'', ''22'', ''23'', ''24'',
                                ''25'', ''26'', ''27'', ''28'', ''29'', ''30'', ''31'']))"

definition url_schema :: "platform \<Rightarrow> string schema" where
  "url_schema P i =
     (case i of
        Some (JString s) \<Rightarrow>
          if length s < 1 \<or> length s > 2048 then Inl ()
          else (case parseURL P s of
                  None \<Rightarrow> Inl ()
                | Some parsed \<Rightarrow>
                    if protocol parsed \<in> set [''javascript:'', ''data:'', ''vbscript:''] then Inl ()
                    else if private_host (hostname parsed) then Inl ()
                    else Inr s)
      | _ \<Rightarrow> Inl ())"

record sitemap_request =
  q_url :: string
  q_changeFreq :: "string option"
  q_priority :: "rat option"
  q_includeLastMod :: "bool option"
  q_includeDebug :: "bool option"

definition changeFreq_schema :: "string option schema" where
  "changeFreq_schema =
     zod_optional (zod_default ''weekly''
       (zod_enum [''always'', ''hourly'', ''daily'', ''weekly'', ''monthly'', ''yearly'', ''never'']))"

definition priority_schema :: "rat option schema" where
  "priority_schema = zod_optional (zod_default (1 / 2) (zod_number_min_max 0 1))"

definition includeLastMod_schema :: "bool option schema" where
  "includeLastMod_schema = zod_optional (zod_default True zod_boolean)"

definition includeDebug_schema :: "bool option schema" where
  "includeDebug_schema = zod_optional (zod_default False zod_boolean)"

text \<open>
  \<open>validateSitemapRequest\<close>: \<open>Inl\<close> lists the properties with an issue (the empty path
  when the body is no object); \<open>strict()\<close> reports the properties the schema does not name.
\<close>

definition validateSitemapRequest :: "platform \<Rightarrow> json \<Rightarrow> string list + sitemap_request" where
  "validateSitemapRequest P body =
     (case body of
        JObject props \<Rightarrow>
          (let known = [''url'', ''changeFreq'', ''priority'', ''includeLastMod'', ''includeDebug''];
               unknown = filter (\<lambda>k. k \<notin> set known) (map fst props);
               url = url_schema P (map_of props ''url'');
               changeFreq = changeFreq_schema (map_of props ''changeFreq'');
               priority = priority_schema (map_of props ''priority'');
               includeLastMod = includeLastMod_schema (map_of props ''includeLastMod'');
               includeDebug = includeDebug_schema (map_of props ''includeDebug'')
           in case (url, changeFreq, priority, includeLastMod, includeDebug) of
                (Inr u, Inr c, Inr p, Inr l, Inr d) \<Rightarrow>
                  if unknown = []
                  then Inr \<lparr>q_url = u, q_changeFreq = c, q_priority = p,
                            q_includeLastMod = l, q_includeDebug = d\<rparr>
                  else Inl unknown
              | _ \<Rightarrow>
                  Inl ((if isl url then [''url''] else []) @
                       (if isl changeFreq then [''changeFreq''] else []) @
                       (if isl priority then [''priority''] else []) @
                       (if isl includeLastMod then [''includeLastMod''] else []) @
                       (if isl includeDebug then [''includeDebug''] else []) @ unknown))
      | _ \<Rightarrow> Inl [[]])"

section \<open>POST /api/generate-sitemap\<close>

record payload =
  sitemapXML :: string
  stats :: crawl_stats
  p_debug :: "debug_entry list option"

datatype http_response =
    Status400 "string list"
  | Status200 payload
  | Status500

text \<open>The handler, for a request the rate limiter lets through.\<close>

definition generate_sitemap :: "platform \<Rightarrow> json \<Rightarrow> http_response" where
  "generate_sitemap P body =
     (case validateSitemapRequest P body of
        Inl e \<Rightarrow> Status400 e
      | Inr data \<Rightarrow>
          (case parseURL P (q_url data) of
             None \<Rightarrow> Status500
           | Some su \<Rightarrow>
               (let startUrl = toString su;
                    includeDebug = (case q_includeDebug data of None \<Rightarrow> False | Some b \<Rightarrow> b)
                in case crawlWebsite P startUrl 50 includeDebug of
                     None \<Rightarrow> Status500
                   | Some r \<Rightarrow>
                       (let sitemapUrls = take 50 (r_visited r);
                            xml = generateSitemapXML P sitemapUrls
                                    \<lparr>o_changeFreq = q_changeFreq data,
                                     o_priority = q_priority data,
                                     o_includeLastMod = q_includeLastMod data\<rparr>
                        in Status200 \<lparr>sitemapXML = xml, stats = r_stats r,
                                      p_debug = (if includeDebug then r_debug r else None)\<rparr>))))"

section \<open>The states of a crawl\<close>

text \<open>
  The states in which the loop condition is evaluated, from the state \<open>s0\<close> before the
  loop: an iteration runs only from a state that passes the condition.
\<close>

inductive crawl_states ::
  "platform \<Rightarrow> string \<Rightarrow> string list \<Rightarrow> bool \<Rightarrow> nat \<Rightarrow> crawl_state \<Rightarrow> crawl_state \<Rightarrow> bool"
  for P startHost robots includeDebug maxPages s0
where
  first: "crawl_states P startHost robots includeDebug maxPages s0 s0"
| iteration:
    "crawl_states P startHost robots includeDebug maxPages s0 s \<Longrightarrow>
     length (queue s) > 0 \<and> length (visited s) < maxPages \<Longrightarrow>
     crawl_states P startHost robots includeDebug maxPages s0
       (crawl_iteration P startHost robots includeDebug s)"

text \<open>The URLs that one iteration pushes onto the queue.\<close>

definition enqueued :: "platform \<Rightarrow> string \<Rightarrow> string list \<Rightarrow> bool \<Rightarrow> crawl_state \<Rightarrow> string list" where
  "enqueued P startHost robots includeDebug s =
     drop (length (queue s) - 1) (queue (crawl_iteration P startHost robots includeDebug s))"

section \<open>A small platform for examples\<close>

text \<open>
  Concrete runs need a concrete platform. \<open>simple_parse\<close> accepts the strings
  \<open>http(s)://host[:port][/path][?query][#fragment]\<close> in which the host is a dotted name of
  letters, digits and hyphens that ends in a label starting with a letter, the port has
  at most four digits and no leading zero, and path, query and fragment are made of
  letters, digits and a few unreserved marks, without dot segments; a query is made of
  lower case letters, digits, underscores, \<open>=\<close> and \<open>&\<close>. On these the URL Standard does
  what \<open>simple_parse\<close> does: it lowers scheme and host, drops the default port, reads an
  empty path as \<open>/\<close> and keeps the rest. Every other string is outside its domain (it
  answers \<open>None\<close>), and so the examples use no other string. The same holds for the
  query pairs (no escapes are needed for these characters), for \<open>simple_compare\<close> (the
  order of \<open>localeCompare\<close> on the keys of these queries: character by character, the
  underscore before the digits and the digits before the letters, a proper prefix
  first) and for \<open>one_decimal\<close> (the multiples of one tenth from 0 to 1). The digest is
  the identity, and cheerio loads every page.
\<close>

definition letter :: "char \<Rightarrow> bool" where
  "letter c = (c \<in> set ''abcdefghijklmnopqrstuvwxyzABCDEFGHIJKLMNOPQRSTUVWXYZ'')"

definition digit :: "char \<Rightarrow> bool" where
  "digit c = (c \<in> set ''0123456789'')"

definition simple_host_ok :: "string \<Rightarrow> bool" where
  "simple_host_ok h =
     (let labels = split_on (CHR ''.'') h in
      list_all (\<lambda>l. l \<noteq> [] \<and> list_all (\<lambda>c. letter c \<or> digit c \<or> c = CHR ''-'') l \<and>
                     \<not> startsWith (toLowerCase l) ''xn--'') labels \<and>
      (case last labels of [] \<Rightarrow> False | c # r \<Rightarrow> letter c))"

definition simple_port_ok :: "string \<Rightarrow> bool" where
  "simple_port_ok p =
     (length p \<le> 4 \<and> list_all digit p \<and> (case p of [] \<Rightarrow> False | c # r \<Rightarrow> c \<noteq> CHR ''0''))"

definition simple_path_ok :: "string \<Rightarrow> bool" where
  "simple_path_ok p =
     (list_all (\<lambda>c. letter c \<or> digit c \<or> c \<in> set ''/._-'') p \<and>
      list_all (\<lambda>seg. seg \<noteq> ''.'' \<and> seg \<noteq> ''..'') (split_on (CHR ''/'') p))"

definition simple_query_ok :: "string option \<Rightarrow> bool" where
  "simple_query_ok q =
     (case q of None \<Rightarrow> True
      | Some s \<Rightarrow> list_all (\<lambda>c. c \<in> set ''abcdefghijklmnopqrstuvwxyz0123456789_=&'') s)"

definition simple_fragment_ok :: "string option \<Rightarrow> bool" where
  "simple_fragment_ok f =
     (case f of None \<Rightarrow> True
      | Some s \<Rightarrow> list_all (\<lambda>c. letter c \<or> digit c \<or> c \<in> set ''._-'') s)"

definition simple_parse :: "string \<Rightarrow> url option" where
  "simple_parse s =
     (let main = takeWhile (\<lambda>c. c \<noteq> CHR ''#'') s;
          frag = (if length main < length s then Some (drop (length main + 1) s) else None);
          noq = takeWhile (\<lambda>c. c \<noteq> CHR ''?'') main;
          qry = (if length noq < length main then Some (drop (length noq + 1) main) else None);
          sch = toLowerCase (takeWhile (\<lambda>c. c \<noteq> CHR '':'') noq);
          rest = drop (length sch) noq;
          auth = takeWhile (\<lambda>c. c \<noteq> CHR ''/'') (drop 3 rest);
          pth = drop (length auth) (drop 3 rest);
          hst = takeWhile (\<lambda>c. c \<noteq> CHR '':'') auth;
          prt = drop (length hst + 1) auth
      in if (sch = ''http'' \<or> sch = ''https'') \<and> startsWith rest ''://'' \<and> simple_host_ok hst \<and>
            (length hst = length auth \<or> simple_port_ok prt) \<and>
            simple_path_ok pth \<and> simple_query_ok qry \<and> simple_fragment_ok frag
         then Some \<lparr>u_scheme = sch, u_username = [], u_password = [],
                     u_host = Some (toLowerCase hst),
                     u_port = (if (sch = ''http'' \<and> prt = ''80'') \<or> (sch = ''https'' \<and> prt = ''443'')
                               then [] else prt),
                     u_path = (if pth = [] then ''/'' else pth),
                     u_opaque = False, u_query = qry, u_fragment = frag\<rparr>
         else None)"

text \<open>An absolute reference, or a path-absolute one against the origin of the base.\<close>

definition simple_resolve :: "string \<Rightarrow> string \<Rightarrow> url option" where
  "simple_resolve href base =
     (case simple_parse base of
        None \<Rightarrow> None
      | Some b \<Rightarrow>
          (case simple_parse href of
             Some u \<Rightarrow> Some u
           | None \<Rightarrow>
               if startsWith href ''/'' \<and> \<not> startsWith href ''//''
               then simple_parse (toString (b\<lparr>u_path := [], u_query := None, u_fragment := None\<rparr>) @ href)
               else None))"

definition simple_urlencoded_parse :: "string \<Rightarrow> (string \<times> string) list" where
  "simple_urlencoded_parse q =
     map (\<lambda>p. (takeWhile (\<lambda>c. c \<noteq> CHR ''='') p,
               drop (length (takeWhile (\<lambda>c. c \<noteq> CHR ''='') p) + 1) p))
         (filter (\<lambda>p. p \<noteq> []) (split_on (CHR ''&'') q))"

definition simple_urlencoded_serialize :: "(string \<times> string) list \<Rightarrow> string" where
  "simple_urlencoded_serialize ps = join ''&'' (map (\<lambda>kv. fst kv @ ''='' @ snd kv) ps)"

definition collation_rank :: "char \<Rightarrow> nat" where
  "collation_rank c =
     length (takeWhile (\<lambda>x. x \<noteq> c) ''_0123456789abcdefghijklmnopqrstuvwxyz'')"

fun simple_compare :: "string \<Rightarrow> string \<Rightarrow> int" where
  "simple_compare [] [] = 0"
| "simple_compare [] (y # ys) = - 1"
| "simple_compare (x # xs) [] = 1"
| "simple_compare (x # xs) (y # ys) =
     (if collation_rank x < collation_rank y then - 1
      else if collation_rank y < collation_rank x then 1
      else simple_compare xs ys)"

definition one_decimal :: "rat \<Rightarrow> string" where
  "one_decimal x =
     (case map_of [(0, ''0''), (1 / 10, ''0.1''), (2 / 10, ''0.2''), (3 / 10, ''0.3''),
                   (4 / 10, ''0.4''), (5 / 10, ''0.5''), (6 / 10, ''0.6''), (7 / 10, ''0.7''),
                   (8 / 10, ''0.8''), (9 / 10, ''0.9''), (1, ''1'')] x of
        None \<Rightarrow> []
      | Some s \<Rightarrow> s)"

text \<open>
  The platform over a given web: \<open>web\<close> answers the crawler's requests, \<open>robots\<close> is the
  answer to the request for \<open>robots.txt\<close> and \<open>links\<close> gives the anchors of a page,
  which cheerio loads whatever it is.
\<close>

definition simple_platform ::
  "(string \<Rightarrow> response) \<Rightarrow> response \<Rightarrow> (string \<Rightarrow> string list) \<Rightarrow> platform" where
  "simple_platform web robots links =
     \<lparr>parseURL = simple_parse, resolveURL = simple_resolve,
      urlencoded_parse = simple_urlencoded_parse,
      urlencoded_serialize = simple_urlencoded_serialize,
      localeCompare = simple_compare,
      httpGet = web, robotsGet = (\<lambda>u. robots), hrefs = (\<lambda>html. Some (links html)),
      sha256 = (\<lambda>x. x), today = ''2024-01-01'', numberToString = one_decimal\<rparr>"

text \<open>
  The entry \<open>u\<close> of the queue gets through the second \<open>try\<close> block without an exception
  and without a \<open>continue\<close> for its status: it is no resource file, the rules allow its
  path, the answer has a 2xx status and cheerio loads it.
\<close>

definition fetched_ok :: "platform \<Rightarrow> string list \<Rightarrow> string \<Rightarrow> bool" where
  "fetched_ok P robots u =
     (\<not> isSkippableResource P u \<and>
      (case parseURL P u of None \<Rightarrow> False | Some x \<Rightarrow> isPathAllowed (pathname x) robots) \<and>
      (case httpGet P u of
         Failed \<Rightarrow> False
       | Response status html \<Rightarrow> 200 \<le> status \<and> status < 300 \<and> hrefs P html \<noteq> None))"

text \<open>Every answer the site gives has the body \<open>body\<close>.\<close>

definition identical_content :: "platform \<Rightarrow> string \<Rightarrow> bool" where
  "identical_content P body = (\<forall>u status html. httpGet P u = Response status html \<longrightarrow> html = body)"

text \<open>
  What is visited is discovered, and so is the normalised form of every URL that waits
  in the queue.
\<close>

definition known :: "platform \<Rightarrow> crawl_state \<Rightarrow> bool" where
  "known P s =
     (set (visited s) \<subseteq> set (discovered s) \<and>
      (\<forall>q \<in> set (queue s). \<forall>n. normalizeUrl P q = Some n \<longrightarrow> n \<in> set (discovered s)))"

text \<open>
  The entries of the queue all have a normalised form, no two of them the same, and
  these forms are discovered.
\<close>

definition frontier_distinct :: "platform \<Rightarrow> crawl_state \<Rightarrow> bool" where
  "frontier_distinct P s =
     (distinct (map (normalizeUrl P) (queue s)) \<and>
      (\<forall>q \<in> set (queue s). \<exists>n. normalizeUrl P q = Some n \<and> n \<in> set (discovered s)))"

text \<open>
  The site of the running example: the seed page links to a page, to the same page with
  a fragment, to another host and to an image; the page \<open>/a\<close> has no links.
\<close>

definition example_web :: "string \<Rightarrow> response" where
  "example_web u =
     (if u = ''https://example.com'' \<or> u = ''https://example.com/'' then Response 200 ''seed page''
      else if u = ''https://example.com/a'' then Response 200 ''page a''
      else Failed)"

definition example_links :: "string \<Rightarrow> string list" where
  "example_links html =
     (if html = ''seed page''
      then [''https://example.com/a'', ''https://example.com/a#section'',
            ''http://other.com/b'', ''https://example.com/logo.png'']
      else [])"

definition example_platform :: platform where
  "example_platform = simple_platform example_web Failed example_links"

text \<open>
  With one body for the whole site the loop keeps this: nothing is visited and no digest
  is stored, or at most one URL is visited and the digest of the body is stored.
\<close>

definition one_page :: "platform \<Rightarrow> string \<Rightarrow> crawl_state \<Rightarrow> bool" where
  "one_page P body s =
     ((visited s = [] \<and> contentHashes s = []) \<or>
      (length (visited s) \<le> 1 \<and> map_of (contentHashes s) (sha256 P body) \<noteq> None))"

text \<open>
  A site on which every request is answered with the same page, which links to \<open>/a\<close>
  and \<open>/b\<close>.
\<close>

definition same_platform :: platform where
  "same_platform =
     simple_platform (\<lambda>u. Response 200 ''same page'') Failed
       (\<lambda>html. [''https://example.com/a'', ''https://example.com/b''])"

text \<open>
  A site on which every request is answered with status 200 and the body \<open>123\<close>. The
  body is JSON, so axios hands the crawler the number 123, and \<open>cheerio.load\<close> throws for
  a number.
\<close>

definition number_platform :: platform where
  "number_platform =
     (simple_platform (\<lambda>u. Response 200 ''123'') (Response 200 ''123'') (\<lambda>html. []))
       \<lparr>hrefs := (\<lambda>html. if html = ''123'' then None else Some [])\<rparr>"

text \<open>
  The query pairs \<open>normalizeUrl\<close> keeps, in the order it writes them, and what the sort
  needs of the comparator on the keys it meets: any two are comparable, and the order is
  transitive.
\<close>

definition kept_params :: "platform \<Rightarrow> url \<Rightarrow> (string \<times> string) list" where
  "kept_params P u =
     sort_by (\<lambda>a b. localeCompare P (fst a) (fst b))
       (filter (\<lambda>kv. fst kv \<notin> set trackingKeys) (searchParams P u))"

definition consistent_on :: "(string \<Rightarrow> string \<Rightarrow> int) \<Rightarrow> string set \<Rightarrow> bool" where
  "consistent_on cmp K =
     ((\<forall>a \<in> K. \<forall>b \<in> K. cmp a b \<le> 0 \<or> cmp b a \<le> 0) \<and>
      (\<forall>a \<in> K. \<forall>b \<in> K. \<forall>c \<in> K. cmp a b \<le> 0 \<and> cmp b c \<le> 0 \<longrightarrow> cmp a c \<le> 0))"

text \<open>
  The fields of the URL that \<open>normalizeUrl\<close> serialises (lemma \<open>normalized_record\<close>): the
  path after the two path steps, the port after the default port is dropped, and the
  query written from the pairs that are kept.
\<close>


text \<open>The two path steps of \<open>normalizeUrl\<close>.\<close>

definition normal_path :: "string \<Rightarrow> string" where
  "normal_path p =
     (if length (collapse_slashes p) > 1 \<and> endsWith (collapse_slashes p) ''/''
      then butlast (collapse_slashes p) else collapse_slashes p)"

definition normal_query :: "platform \<Rightarrow> url \<Rightarrow> string option" where
  "normal_query P r =
     (if kept_params P r = [] \<or> urlencoded_serialize P (kept_params P r) = [] then None
      else Some (urlencoded_serialize P (kept_params P r)))"

definition normal_port :: "url \<Rightarrow> string" where
  "normal_port r =
     (let s = toLowerCase (takeWhile (\<lambda>c. c \<noteq> CHR '':'') (u_scheme r)) in
      if (s = ''http'' \<and> u_port r = ''80'') \<or> (s = ''https'' \<and> u_port r = ''443'') then []
      else u_port r)"

text \<open>
  The pairs that are left when the tracking parameters are taken out, and two parsed URLs
  that differ at most in fragment, in a default port written out, in tracking parameters
  and in the order of the other parameters. \<open>antisymmetric_on\<close> says that the comparator
  ties no two different keys of \<open>K\<close>: of two different keys it puts one after the other.
\<close>

definition remaining_params :: "platform \<Rightarrow> url \<Rightarrow> (string \<times> string) list" where
  "remaining_params P u = filter (\<lambda>kv. fst kv \<notin> set trackingKeys) (searchParams P u)"

definition differ_only :: "platform \<Rightarrow> url \<Rightarrow> url \<Rightarrow> bool" where
  "differ_only P r1 r2 =
     (u_scheme r1 = u_scheme r2 \<and> u_username r1 = u_username r2 \<and>
      u_password r1 = u_password r2 \<and> u_host r1 = u_host r2 \<and> u_opaque r1 = u_opaque r2 \<and>
      u_path r1 = u_path r2 \<and> normal_port r1 = normal_port r2 \<and>
      mset (remaining_params P r1) = mset (remaining_params P r2))"

definition antisymmetric_on :: "(string \<Rightarrow> string \<Rightarrow> int) \<Rightarrow> string set \<Rightarrow> bool" where
  "antisymmetric_on cmp K = (\<forall>a \<in> K. \<forall>b \<in> K. cmp a b \<le> 0 \<and> cmp b a \<le> 0 \<longrightarrow> a = b)"

text \<open>Two \<open>robots.txt\<close> files: an ordinary one, and one that names an agent \<open>constructor\<close>.\<close>

definition robots_plain :: string where
  "robots_plain =
     ''Disallow: /early'' @ [CHR 0x0A] @
     ''User-agent: *'' @ [CHR 0x0A] @
     ''Disallow: /private'' @ [CHR 0x0A] @
     ''User-agent: Sitemap-Generator'' @ [CHR 0x0A] @
     ''Disallow: /own''"

definition robots_inherited_name :: string where
  "robots_inherited_name =
     ''User-agent: *'' @ [CHR 0x0A] @
     ''Disallow: /private'' @ [CHR 0x0A] @
     ''User-agent: constructor'' @ [CHR 0x0A] @
     ''Disallow: /x''"

section \<open>Facts about the helpers\<close>

lemma toString_nonempty: "toString u \<noteq> []"
  by (simp add: toString_def)

lemma truthy_normalizeUrl: "truthy (normalizeUrl P u) = normalizeUrl P u"
  by (cases "parseURL P u") (simp_all add: normalizeUrl_def toString_nonempty)

lemma normalizeUrl_nonempty: "normalizeUrl P u = Some n \<Longrightarrow> n \<noteq> []"
  by (cases "parseURL P u") (auto simp: normalizeUrl_def toString_nonempty)

lemma set_set_add: "set (set_add xs x) = insert x (set xs)"
  by (auto simp: set_add_def)

lemma push_debug_fields:
  "visited (push_debug b u n a s) = visited s"
  "discovered (push_debug b u n a s) = discovered s"
  "queue (push_debug b u n a s) = queue s"
  "contentHashes (push_debug b u n a s) = contentHashes s"
  by (simp_all add: push_debug_def)

lemma mark_discovered_fields:
  "visited (mark_discovered b u n a s) = visited s"
  "discovered (mark_discovered b u n a s) = set_add (discovered s) n"
  "queue (mark_discovered b u n a s) = queue s"
  "contentHashes (mark_discovered b u n a s) = contentHashes s"
  by (simp_all add: mark_discovered_def push_debug_fields)

section \<open>The loop\<close>

lemma crawl_loop_run:
  "length (queue s) > 0 \<and> length (visited s) < m \<Longrightarrow>
   crawl_loop P h r b m s = crawl_loop P h r b m (crawl_iteration P h r b s)"
  by (subst crawl_loop.simps) simp

lemma crawl_loop_stop:
  "\<not> (length (queue s) > 0 \<and> length (visited s) < m) \<Longrightarrow> crawl_loop P h r b m s = s"
  by (subst crawl_loop.simps) auto

text \<open>The state the loop ends in is one of the states of the crawl.\<close>

lemma crawl_loop_state:
  "crawl_states P h r b m s0 s \<Longrightarrow> crawl_states P h r b m s0 (crawl_loop P h r b m s)"
proof (induction P h r b m s rule: crawl_loop.induct)
  case (1 P h r b m s)
  show ?case
  proof (cases "length (queue s) > 0 \<and> length (visited s) < m")
    case True
    then have "crawl_states P h r b m s0 (crawl_iteration P h r b s)"
      using "1.prems" crawl_states.iteration by blast
    then show ?thesis using True "1.IH" by (simp add: crawl_loop_run)
  next
    case False
    then show ?thesis using "1.prems" by (simp add: crawl_loop_stop)
  qed
qed

text \<open>What one link does to the state: nothing, or one new entry in set and queue.\<close>

lemma extract_link_cases:
  "extract_link P h b c nc s href = s \<or>
   (\<exists>resolved n. normalizeUrl P resolved = Some n \<and> n \<notin> set (discovered s) \<and>
      visited (extract_link P h b c nc s href) = visited s \<and>
      contentHashes (extract_link P h b c nc s href) = contentHashes s \<and>
      discovered (extract_link P h b c nc s href) = discovered s @ [n] \<and>
      queue (extract_link P h b c nc s href) = queue s @ [resolved])"
  by (auto simp: extract_link_def truthy_normalizeUrl push_debug_fields set_add_def
           split: option.splits)

lemma extract_link_discovered_mono:
  "set (discovered s) \<subseteq> set (discovered (extract_link P h b c nc s href))"
  using extract_link_cases [of P h b c nc s href] by auto

lemma extract_link_visited [simp]:
  "visited (extract_link P h b c nc s href) = visited s"
  using extract_link_cases [of P h b c nc s href] by auto

lemma links_discovered_mono:
  "set (discovered s) \<subseteq> set (discovered (foldl (extract_link P h b c nc) s hs))"
proof (induction hs arbitrary: s)
  case Nil
  show ?case by simp
next
  case (Cons x hs)
  show ?case
    using Cons [of "extract_link P h b c nc s x"] extract_link_discovered_mono [of s P h b c nc x]
    by auto
qed

lemma links_visited [simp]:
  "visited (foldl (extract_link P h b c nc) s hs) = visited s"
  by (induction hs arbitrary: s) simp_all

section \<open>Visited URLs are discovered URLs\<close>

lemma extract_link_known:
  "known P s \<Longrightarrow> known P (extract_link P h b c nc s href)"
  using extract_link_cases [of P h b c nc s href]
  by (auto simp: known_def)

lemma links_known:
  "known P s \<Longrightarrow> known P (foldl (extract_link P h b c nc) s hs)"
  by (induction hs arbitrary: s) (simp_all add: extract_link_known)

lemma mark_discovered_known:
  "known P s \<Longrightarrow> known P (mark_discovered b u n a s)"
  by (auto simp: known_def mark_discovered_fields set_set_add)

lemma push_debug_known:
  "known P (push_debug b u n a s) = known P s"
  by (simp add: known_def push_debug_fields)

lemma fetch_page_known:
  assumes "known P s" and "n \<in> set (discovered s)"
  shows "known P (fetch_page P h b c n s)"
proof -
  let ?s1 = "push_debug b c n Fetching s"
  have k1: "known P ?s1" using assms by (simp add: push_debug_known)
  show ?thesis
  proof (cases "httpGet P c")
    case Failed
    then show ?thesis using k1 by (simp add: fetch_page_def mark_discovered_known)
  next
    case (Response status html)
    let ?s3 = "push_debug b c n (Fetched (take 8 (sha256 P html)))
                (?s1\<lparr>contentHashes := contentHashes ?s1 @ [(sha256 P html, n)]\<rparr>)"
    have k3: "known P ?s3" using k1 by (simp add: known_def push_debug_fields)
    show ?thesis
    proof (cases "hrefs P html")
      case None
      then show ?thesis using Response k1 k3
        by (simp add: fetch_page_def Let_def mark_discovered_known)
    next
      case (Some anchors)
      let ?s4 = "foldl (extract_link P h b c n) ?s3 anchors"
      have k4: "known P ?s4" using k3 by (rule links_known)
      have "n \<in> set (discovered ?s3)" using assms by (simp add: push_debug_fields)
      then have "n \<in> set (discovered ?s4)" using links_discovered_mono by blast
      then have "known P (?s4\<lparr>visited := set_add (visited ?s4) n\<rparr>)"
        using k4 by (auto simp: known_def set_set_add)
      then show ?thesis using Response Some k1
        by (simp add: fetch_page_def Let_def mark_discovered_known)
    qed
  qed
qed

lemma crawl_iteration_known:
  assumes "known P s"
  shows "known P (crawl_iteration P h r b s)"
proof (cases "queue s")
  case Nil
  then show ?thesis using assms by (simp add: crawl_iteration_def)
next
  case (Cons current rest)
  let ?s = "s\<lparr>queue := rest\<rparr>"
  have k: "known P ?s" using assms Cons by (auto simp: known_def)
  show ?thesis
  proof (cases "normalizeUrl P current")
    case None
    then show ?thesis using k Cons by (simp add: crawl_iteration_def truthy_normalizeUrl)
  next
    case (Some n)
    then have "n \<in> set (discovered ?s)" using assms Cons by (auto simp: known_def)
    then have "known P (fetch_page P h b current n ?s)" using k fetch_page_known by blast
    then show ?thesis using k Cons Some
      by (simp add: crawl_iteration_def truthy_normalizeUrl mark_discovered_known Let_def
               split: option.splits)
  qed
qed

lemma initial_state_known: "known P (initial_state P startUrl)"
  by (auto simp: known_def initial_state_def truthy_normalizeUrl set_set_add Let_def
           split: option.splits)

lemma crawl_states_known:
  "crawl_states P h r b m (initial_state P startUrl) s \<Longrightarrow> known P s"
  by (induction rule: crawl_states.induct)
     (simp_all add: initial_state_known crawl_iteration_known)

section \<open>The queue\<close>

lemma links_queue:
  "\<exists>new. queue (foldl (extract_link P h b c nc) s hs) = queue s @ new \<and>
     distinct (map (normalizeUrl P) new) \<and>
     (\<forall>q \<in> set new. \<exists>n. normalizeUrl P q = Some n \<and> n \<notin> set (discovered s) \<and>
         n \<in> set (discovered (foldl (extract_link P h b c nc) s hs)))"
proof (induction hs arbitrary: s)
  case Nil
  show ?case by simp
next
  case (Cons x hs)
  let ?t = "extract_link P h b c nc s x"
  obtain new where new: "queue (foldl (extract_link P h b c nc) ?t hs) = queue ?t @ new"
    "distinct (map (normalizeUrl P) new)"
    "\<forall>q \<in> set new. \<exists>n. normalizeUrl P q = Some n \<and> n \<notin> set (discovered ?t) \<and>
         n \<in> set (discovered (foldl (extract_link P h b c nc) ?t hs))"
    using Cons [of ?t] by blast
  from extract_link_cases [of P h b c nc s x]
  show ?case
  proof
    assume "?t = s"
    then show ?thesis using new by auto
  next
    assume "\<exists>resolved n. normalizeUrl P resolved = Some n \<and> n \<notin> set (discovered s) \<and>
      visited ?t = visited s \<and> contentHashes ?t = contentHashes s \<and>
      discovered ?t = discovered s @ [n] \<and> queue ?t = queue s @ [resolved]"
    then obtain resolved n where r: "normalizeUrl P resolved = Some n" "n \<notin> set (discovered s)"
      "discovered ?t = discovered s @ [n]" "queue ?t = queue s @ [resolved]" by blast
    have mono: "set (discovered ?t) \<subseteq> set (discovered (foldl (extract_link P h b c nc) ?t hs))"
      by (rule links_discovered_mono)
    have q: "queue (foldl (extract_link P h b c nc) s (x # hs)) = queue s @ (resolved # new)"
      using new(1) r(4) by simp
    have d: "distinct (map (normalizeUrl P) (resolved # new))"
      using new(2,3) r by auto
    have m: "\<forall>q \<in> set (resolved # new). \<exists>n. normalizeUrl P q = Some n \<and> n \<notin> set (discovered s) \<and>
         n \<in> set (discovered (foldl (extract_link P h b c nc) s (x # hs)))"
      using new(3) r mono by auto
    show ?thesis using q d m by blast
  qed
qed

lemma links_contentHashes [simp]:
  "contentHashes (foldl (extract_link P h b c nc) s hs) = contentHashes s"
proof (induction hs arbitrary: s)
  case Nil show ?case by simp
next
  case (Cons x hs)
  show ?case using Cons [of "extract_link P h b c nc s x"] extract_link_cases [of P h b c nc s x]
    by auto
qed

text \<open>What an iteration does to the queue and the discovered set.\<close>

lemma fetch_page_queue:
  "\<exists>new. queue (fetch_page P h b c n s) = queue s @ new \<and>
     distinct (map (normalizeUrl P) new) \<and>
     set (discovered s) \<subseteq> set (discovered (fetch_page P h b c n s)) \<and>
     (\<forall>q \<in> set new. \<exists>k. normalizeUrl P q = Some k \<and> k \<notin> set (discovered s) \<and>
         k \<in> set (discovered (fetch_page P h b c n s)))"
proof (cases "httpGet P c")
  case Failed
  then show ?thesis
    by (auto simp: fetch_page_def mark_discovered_fields push_debug_fields set_set_add)
next
  case (Response status html)
  let ?s3 = "push_debug b c n (Fetched (take 8 (sha256 P html)))
              ((push_debug b c n Fetching s)\<lparr>contentHashes :=
                 contentHashes (push_debug b c n Fetching s) @ [(sha256 P html, n)]\<rparr>)"
  have q3: "queue ?s3 = queue s" and d3: "discovered ?s3 = discovered s"
    by (simp_all add: push_debug_fields)
  show ?thesis
  proof (cases "status < 200 \<or> status \<ge> 300 \<or> map_of (contentHashes s) (sha256 P html) \<noteq> None
                  \<or> hrefs P html = None")
    case True
    then show ?thesis using Response
      by (auto simp: fetch_page_def mark_discovered_fields push_debug_fields set_set_add Let_def)
  next
    case False
    then obtain anchors where anchors: "hrefs P html = Some anchors" by auto
    let ?s4 = "foldl (extract_link P h b c n) ?s3 anchors"
    obtain new where new: "queue ?s4 = queue ?s3 @ new" "distinct (map (normalizeUrl P) new)"
      "\<forall>q \<in> set new. \<exists>k. normalizeUrl P q = Some k \<and> k \<notin> set (discovered ?s3) \<and>
           k \<in> set (discovered ?s4)"
      using links_queue [of P h b c n ?s3 anchors] by blast
    have mono: "set (discovered ?s3) \<subseteq> set (discovered ?s4)" by (rule links_discovered_mono)
    have good: "\<exists>new. queue (?s4\<lparr>visited := set_add (visited ?s4) n\<rparr>) = queue s @ new \<and>
       distinct (map (normalizeUrl P) new) \<and>
       set (discovered s) \<subseteq> set (discovered (?s4\<lparr>visited := set_add (visited ?s4) n\<rparr>)) \<and>
       (\<forall>q \<in> set new. \<exists>k. normalizeUrl P q = Some k \<and> k \<notin> set (discovered s) \<and>
           k \<in> set (discovered (?s4\<lparr>visited := set_add (visited ?s4) n\<rparr>)))"
      using new mono q3 d3 by auto
    have "fetch_page P h b c n s = ?s4\<lparr>visited := set_add (visited ?s4) n\<rparr>"
      using False Response anchors by (simp add: fetch_page_def Let_def push_debug_fields)
    then show ?thesis using good by simp
  qed
qed

lemma crawl_iteration_queue:
  assumes "queue s = current # rest"
  shows "\<exists>new. queue (crawl_iteration P h r b s) = rest @ new \<and>
     distinct (map (normalizeUrl P) new) \<and>
     set (discovered s) \<subseteq> set (discovered (crawl_iteration P h r b s)) \<and>
     (\<forall>q \<in> set new. \<exists>k. normalizeUrl P q = Some k \<and> k \<notin> set (discovered s) \<and>
         k \<in> set (discovered (crawl_iteration P h r b s)))"
proof (cases "normalizeUrl P current")
  case None
  then show ?thesis using assms by (simp add: crawl_iteration_def truthy_normalizeUrl)
next
  case (Some n)
  have f: "\<exists>new. queue (fetch_page P h b current n (s\<lparr>queue := rest\<rparr>)) = rest @ new \<and>
     distinct (map (normalizeUrl P) new) \<and>
     set (discovered s) \<subseteq> set (discovered (fetch_page P h b current n (s\<lparr>queue := rest\<rparr>))) \<and>
     (\<forall>q \<in> set new. \<exists>k. normalizeUrl P q = Some k \<and> k \<notin> set (discovered s) \<and>
         k \<in> set (discovered (fetch_page P h b current n (s\<lparr>queue := rest\<rparr>))))"
    using fetch_page_queue [of P h b current n "s\<lparr>queue := rest\<rparr>"] by simp
  show ?thesis
  proof (cases "n \<in> set (visited s) \<or> isSkippableResource P current \<or> parseURL P current = None
                \<or> (\<exists>u. parseURL P current = Some u \<and> \<not> isPathAllowed (pathname u) r)")
    case True
    then have "queue (crawl_iteration P h r b s) = rest \<and>
        set (discovered s) \<subseteq> set (discovered (crawl_iteration P h r b s))"
      using assms Some
      by (auto simp: crawl_iteration_def truthy_normalizeUrl mark_discovered_fields set_set_add Let_def)
    then show ?thesis by (intro exI [of _ "[]"]) simp
  next
    case False
    moreover have "n \<noteq> []" using Some by (rule normalizeUrl_nonempty)
    ultimately have "crawl_iteration P h r b s = fetch_page P h b current n (s\<lparr>queue := rest\<rparr>)"
      using assms Some by (auto simp: crawl_iteration_def)
    then show ?thesis using f by simp
  qed
qed

lemma crawl_iteration_frontier:
  assumes "frontier_distinct P s"
  shows "frontier_distinct P (crawl_iteration P h r b s)"
proof (cases "queue s")
  case Nil
  then show ?thesis using assms by (simp add: crawl_iteration_def)
next
  case (Cons current rest)
  obtain new where new: "queue (crawl_iteration P h r b s) = rest @ new"
     "distinct (map (normalizeUrl P) new)"
     "set (discovered s) \<subseteq> set (discovered (crawl_iteration P h r b s))"
     "\<forall>q \<in> set new. \<exists>k. normalizeUrl P q = Some k \<and> k \<notin> set (discovered s) \<and>
         k \<in> set (discovered (crawl_iteration P h r b s))"
    using crawl_iteration_queue [OF Cons, of P h r b] by blast
  have old: "distinct (map (normalizeUrl P) rest)"
    "\<forall>q \<in> set rest. \<exists>n. normalizeUrl P q = Some n \<and> n \<in> set (discovered s)"
    using assms Cons by (auto simp: frontier_distinct_def)
  have "normalizeUrl P ` set rest \<inter> normalizeUrl P ` set new = {}"
    using old(2) new(4) by fastforce
  then have "distinct (map (normalizeUrl P) (rest @ new))"
    using old(1) new(2) by simp
  moreover have "\<forall>q \<in> set (rest @ new). \<exists>n. normalizeUrl P q = Some n \<and>
      n \<in> set (discovered (crawl_iteration P h r b s))"
    using old(2) new(3,4) by (fastforce simp: subset_iff)
  ultimately show ?thesis by (simp add: frontier_distinct_def new(1))
qed

lemma initial_state_frontier:
  "parseURL P startUrl \<noteq> None \<Longrightarrow> frontier_distinct P (initial_state P startUrl)"
  by (auto simp: frontier_distinct_def initial_state_def truthy_normalizeUrl normalizeUrl_def
        set_set_add Let_def toString_nonempty)

lemma crawl_states_frontier:
  "crawl_states P h r b m (initial_state P startUrl) s \<Longrightarrow> parseURL P startUrl \<noteq> None \<Longrightarrow>
   frontier_distinct P s"
  by (induction rule: crawl_states.induct)
     (simp_all add: initial_state_frontier crawl_iteration_frontier)

lemma enqueued_new:
  assumes "queue s = current # rest"
  shows "queue (crawl_iteration P h r b s) = rest @ enqueued P h r b s"
proof -
  obtain new where "queue (crawl_iteration P h r b s) = rest @ new"
    using crawl_iteration_queue [OF assms, of P h r b] by blast
  then show ?thesis using assms by (simp add: enqueued_def)
qed

section \<open>The visited set\<close>

text \<open>
  An iteration leaves the visited set alone or adds the URL it fetched; it stores the
  digest of an answer also when cheerio then throws.
\<close>

lemma fetch_page_visited:
  "visited (fetch_page P h b c n s) =
     (case httpGet P c of
        Failed \<Rightarrow> visited s
      | Response status html \<Rightarrow>
          if 200 \<le> status \<and> status < 300 \<and> map_of (contentHashes s) (sha256 P html) = None
             \<and> hrefs P html \<noteq> None
          then set_add (visited s) n else visited s)"
  by (auto simp: fetch_page_def mark_discovered_fields push_debug_fields Let_def links_visited
           split: response.splits option.splits)

lemma fetch_page_contentHashes:
  "contentHashes (fetch_page P h b c n s) =
     (case httpGet P c of
        Failed \<Rightarrow> contentHashes s
      | Response status html \<Rightarrow>
          if 200 \<le> status \<and> status < 300 \<and> map_of (contentHashes s) (sha256 P html) = None
          then contentHashes s @ [(sha256 P html, n)] else contentHashes s)"
  by (auto simp: fetch_page_def mark_discovered_fields push_debug_fields Let_def
           links_contentHashes split: response.splits option.splits)

lemma crawl_iteration_cases:
  "(visited (crawl_iteration P h r b s) = visited s \<and>
    contentHashes (crawl_iteration P h r b s) = contentHashes s) \<or>
   (\<exists>current rest n status html.
      queue s = current # rest \<and> normalizeUrl P current = Some n \<and> n \<notin> set (visited s) \<and>
      httpGet P current = Response status html \<and>
      map_of (contentHashes s) (sha256 P html) = None \<and>
      (visited (crawl_iteration P h r b s) = visited s @ [n] \<or>
       visited (crawl_iteration P h r b s) = visited s) \<and>
      contentHashes (crawl_iteration P h r b s) = contentHashes s @ [(sha256 P html, n)])"
proof (cases "queue s")
  case Nil
  then show ?thesis by (simp add: crawl_iteration_def)
next
  case (Cons current rest)
  show ?thesis
  proof (cases "normalizeUrl P current")
    case None
    then show ?thesis using Cons by (simp add: crawl_iteration_def truthy_normalizeUrl)
  next
    case (Some n)
    have ne: "n \<noteq> []" using Some by (rule normalizeUrl_nonempty)
    show ?thesis
    proof (cases "n \<in> set (visited s)")
      case True
      then show ?thesis using Cons Some ne by (simp add: crawl_iteration_def)
    next
      case False
      then show ?thesis using Cons Some ne
        by (auto simp: crawl_iteration_def Let_def mark_discovered_fields fetch_page_visited
              fetch_page_contentHashes set_add_def split: option.splits response.splits)
    qed
  qed
qed

lemma crawl_iteration_fetch:
  assumes "queue s = current # rest" and "normalizeUrl P current = Some n"
    and "n \<notin> set (visited s)" and "fetched_ok P r current"
    and "httpGet P current = Response status html"
    and "map_of (contentHashes s) (sha256 P html) = None"
  shows "visited (crawl_iteration P h r b s) = visited s @ [n]"
proof -
  have ne: "n \<noteq> []" using assms(2) by (rule normalizeUrl_nonempty)
  obtain x where x: "parseURL P current = Some x" "isPathAllowed (pathname x) r"
    using assms(4) by (auto simp: fetched_ok_def split: option.splits)
  have ok: "\<not> isSkippableResource P current" "200 \<le> status" "status < 300"
      "hrefs P html \<noteq> None"
    using assms(4,5) by (simp_all add: fetched_ok_def)
  have "crawl_iteration P h r b s = fetch_page P h b current n (s\<lparr>queue := rest\<rparr>)"
    using assms(1,2,3) ne x ok(1) by (simp add: crawl_iteration_def)
  then show ?thesis using assms(3,5,6) ok
    by (simp add: fetch_page_visited set_add_def)
qed

lemma crawl_states_visited_bound:
  "crawl_states P h r b m s0 s \<Longrightarrow> length (visited s0) \<le> m \<Longrightarrow> length (visited s) \<le> m"
proof (induction rule: crawl_states.induct)
  case first
  then show ?case by simp
next
  case (iteration s)
  then show ?case using crawl_iteration_cases [of P h r b s] by auto
qed

lemma initial_state_fields:
  "visited (initial_state P u) = []"
  "queue (initial_state P u) = [u]"
  "contentHashes (initial_state P u) = []"
  by (simp_all add: initial_state_def Let_def split: option.splits)

section \<open>Sites with one body\<close>

lemma crawl_iteration_one_page:
  assumes "identical_content P body" and "one_page P body s"
  shows "one_page P body (crawl_iteration P h r b s)"
  using crawl_iteration_cases [of P h r b s]
proof
  assume "visited (crawl_iteration P h r b s) = visited s \<and>
    contentHashes (crawl_iteration P h r b s) = contentHashes s"
  then show ?thesis using assms(2) by (simp add: one_page_def)
next
  assume "\<exists>current rest n status html.
      queue s = current # rest \<and> normalizeUrl P current = Some n \<and> n \<notin> set (visited s) \<and>
      httpGet P current = Response status html \<and>
      map_of (contentHashes s) (sha256 P html) = None \<and>
      (visited (crawl_iteration P h r b s) = visited s @ [n] \<or>
       visited (crawl_iteration P h r b s) = visited s) \<and>
      contentHashes (crawl_iteration P h r b s) = contentHashes s @ [(sha256 P html, n)]"
  then obtain current n status html where v:
      "httpGet P current = Response status html"
      "map_of (contentHashes s) (sha256 P html) = None"
      "visited (crawl_iteration P h r b s) = visited s @ [n] \<or>
       visited (crawl_iteration P h r b s) = visited s"
      "contentHashes (crawl_iteration P h r b s) = contentHashes s @ [(sha256 P html, n)]"
    by blast
  have body: "html = body" using assms(1) v(1) by (auto simp: identical_content_def)
  then have "visited s = [] \<and> contentHashes s = []"
    using assms(2) v(2) by (auto simp: one_page_def)
  then have "length (visited (crawl_iteration P h r b s)) \<le> 1" using v(3) by auto
  then show ?thesis using body v(4) by (simp add: one_page_def)
qed

lemma crawl_states_one_page:
  "crawl_states P h r b m s0 s \<Longrightarrow> identical_content P body \<Longrightarrow> one_page P body s0 \<Longrightarrow>
   one_page P body s"
  by (induction rule: crawl_states.induct) (simp_all add: crawl_iteration_one_page)

lemma crawl_states_visited_grows:
  "crawl_states P h r b m s0 s \<Longrightarrow> length (visited s0) \<le> length (visited s)"
proof (induction rule: crawl_states.induct)
  case first
  show ?case by simp
next
  case (iteration s)
  then show ?case using crawl_iteration_cases [of P h r b s] by auto
qed

section \<open>Tags of the sitemap document\<close>

lemma occurrences_skip:
  "CHR ''<'' \<notin> set a \<Longrightarrow> occurrences (CHR ''<'' # ps) (a @ b) = occurrences (CHR ''<'' # ps) b"
  by (induction a) auto

lemma escapeXml_no_lt: "CHR ''<'' \<notin> set (escapeXml loc)"
  by (induction loc) (auto simp: escapeXml_def)

lemma url_entry_url:
  assumes "CHR ''<'' \<notin> set (numberToString P pr)" and "CHR ''<'' \<notin> set cf"
    and "\<forall>l. lm = Some l \<longrightarrow> CHR ''<'' \<notin> set l"
  shows "occurrences ''<url>'' (url_entry P cf pr inc lm loc @ CHR 0x0A # rest) =
           Suc (occurrences ''<url>'' rest)"
  using assms
  by (cases lm) (simp_all add: url_entry_def occurrences_skip escapeXml_no_lt)

lemma url_entry_lastmod:
  assumes "CHR ''<'' \<notin> set (numberToString P pr)" and "CHR ''<'' \<notin> set cf"
  shows "occurrences ''<lastmod>'' (url_entry P cf pr False lm loc @ CHR 0x0A # rest) =
           occurrences ''<lastmod>'' rest"
  using assms
  by (cases lm) (simp_all add: url_entry_def occurrences_skip escapeXml_no_lt)

lemma join_entries:
  assumes "\<And>loc rest. occurrences (CHR ''<'' # ps) (E loc @ CHR 0x0A # rest) =
             k + occurrences (CHR ''<'' # ps) rest"
  shows "occurrences (CHR ''<'' # ps) (join [CHR 0x0A] (map E urls) @ CHR 0x0A # rest) =
           k * length urls + occurrences (CHR ''<'' # ps) rest"
proof (induction urls)
  case Nil
  show ?case by simp
next
  case (Cons u us)
  show ?case
  proof (cases us)
    case Nil
    then show ?thesis using assms [of u rest] by simp
  next
    case (Cons v vs)
    have "join [CHR 0x0A] (map E (u # us)) @ CHR 0x0A # rest =
          E u @ CHR 0x0A # (join [CHR 0x0A] (map E us) @ CHR 0x0A # rest)"
      using Cons by simp
    then show ?thesis using assms Cons.IH by simp
  qed
qed

lemma generateSitemapXML_url:
  assumes "\<forall>x. CHR ''<'' \<notin> set (numberToString P x)" and "CHR ''<'' \<notin> set (today P)"
    and "\<forall>c. o_changeFreq options = Some c \<longrightarrow> CHR ''<'' \<notin> set c"
  shows "occurrences ''<url>'' (generateSitemapXML P urls options) = length urls"
proof -
  let ?cf = "case o_changeFreq options of None \<Rightarrow> ''weekly'' | Some c \<Rightarrow> c"
  let ?inc = "case o_includeLastMod options of None \<Rightarrow> False | Some b \<Rightarrow> b"
  let ?lm = "if ?inc then Some (today P) else None"
  have cf: "CHR ''<'' \<notin> set ?cf" using assms(3) by (auto split: option.splits)
  have lm: "\<forall>l. ?lm = Some l \<longrightarrow> CHR ''<'' \<notin> set l" using assms(2) by simp
  have e: "occurrences ''<url>'' (url_entry P ?cf pr ?inc ?lm loc @ CHR 0x0A # rest) =
             1 + occurrences ''<url>'' rest" for pr loc rest
    using url_entry_url [OF _ cf lm] assms(1) by simp
  show ?thesis
    unfolding generateSitemapXML_def Let_def
    by (simp add: join_entries [OF e])
qed

lemma generateSitemapXML_lastmod:
  assumes "\<forall>x. CHR ''<'' \<notin> set (numberToString P x)"
    and "\<forall>c. o_changeFreq options = Some c \<longrightarrow> CHR ''<'' \<notin> set c"
    and "o_includeLastMod options = None \<or> o_includeLastMod options = Some False"
  shows "occurrences ''<lastmod>'' (generateSitemapXML P urls options) = 0"
proof -
  let ?cf = "case o_changeFreq options of None \<Rightarrow> ''weekly'' | Some c \<Rightarrow> c"
  have inc: "(case o_includeLastMod options of None \<Rightarrow> False | Some b \<Rightarrow> b) = False"
    using assms(3) by auto
  have cf: "CHR ''<'' \<notin> set ?cf" using assms(2) by (auto split: option.splits)
  have e: "occurrences ''<lastmod>'' (url_entry P ?cf pr False None loc @ CHR 0x0A # rest) =
             0 + occurrences ''<lastmod>'' rest" for pr loc rest
    using url_entry_lastmod [OF _ cf] assms(1) by simp
  show ?thesis
    unfolding generateSitemapXML_def Let_def inc
    by (simp add: join_entries [OF e])
qed

section \<open>The handler\<close>

lemma crawl_states_visited_nonempty:
  "crawl_states P h r b m s0 s \<Longrightarrow> [] \<notin> set (visited s0) \<Longrightarrow> [] \<notin> set (visited s)"
proof (induction rule: crawl_states.induct)
  case first
  then show ?case by simp
next
  case (iteration s)
  then show ?case
    using crawl_iteration_cases [of P h r b s] by (auto dest: normalizeUrl_nonempty)
qed

lemma crawlWebsite_visited:
  assumes "crawlWebsite P startUrl maxPages includeDebug = Some r"
  shows "urlsInSitemap (r_stats r) = length (r_visited r) \<and> length (r_visited r) \<le> maxPages"
proof -
  obtain s where s: "final_state P startUrl maxPages includeDebug = Some s"
    using assms by (auto simp: crawlWebsite_def split: option.splits)
  then obtain su where su: "parseURL P startUrl = Some su"
    by (auto simp: final_state_def split: option.splits)
  have "s = crawl_loop P (hostname su) (fetchRobots P startUrl) includeDebug maxPages
          (initial_state P startUrl)"
    using s su by (simp add: final_state_def)
  then have "crawl_states P (hostname su) (fetchRobots P startUrl) includeDebug maxPages
          (initial_state P startUrl) s"
    using crawl_loop_state [OF crawl_states.first] by simp
  then have "[] \<notin> set (visited s)" and le: "length (visited s) \<le> maxPages"
    using crawl_states_visited_nonempty crawl_states_visited_bound
    by (force simp: initial_state_fields)+
  then have "filter (\<lambda>x. x \<noteq> []) (visited s) = visited s"
    by (auto simp: filter_id_conv)
  then show ?thesis using assms s le by (auto simp: crawlWebsite_def)
qed

lemma zod_optional_default_absent:
  "zod_optional (zod_default d inner) None = Inr None"
  by (simp add: zod_optional_def)

lemma validate_changeFreq:
  assumes "validateSitemapRequest P body = Inr data" and "q_changeFreq data = Some c"
  shows "c \<in> set [''always'', ''hourly'', ''daily'', ''weekly'', ''monthly'', ''yearly'', ''never'']"
proof -
  obtain props where b: "body = JObject props"
    using assms(1) by (cases body) (simp_all add: validateSitemapRequest_def)
  have "changeFreq_schema (map_of props ''changeFreq'') = Inr (Some c)"
    using assms unfolding b validateSitemapRequest_def Let_def
    by (auto split: sum.splits if_splits)
  then show ?thesis
    by (auto simp: changeFreq_schema_def zod_optional_def zod_default_def zod_enum_def
             split: option.splits json.splits sum.splits if_splits)
qed

lemma validate_includeLastMod:
  assumes "validateSitemapRequest P (JObject props) = Inr data"
  shows "includeLastMod_schema (map_of props ''includeLastMod'') = Inr (q_includeLastMod data)"
  using assms unfolding validateSitemapRequest_def Let_def
  by (auto split: sum.splits if_splits)

lemma enum_no_lt:
  "c \<in> set [''always'', ''hourly'', ''daily'', ''weekly'', ''monthly'', ''yearly'', ''never''] \<Longrightarrow>
   CHR ''<'' \<notin> set c"
  by auto

lemma one_decimal_no_lt: "CHR ''<'' \<notin> set (one_decimal x)"
  by (simp add: one_decimal_def)

section \<open>The rules of robots.txt\<close>

lemma foldl_set_add: "set (foldl set_add xs ys) = set xs \<union> set ys"
  by (induction ys arbitrary: xs) (auto simp: set_set_add)

lemma parseRobots_union:
  assumes "robots_lines ([], []) (map trim (split_lines text)) = Some (agents, cur)"
    and "rules_of agents ''sitemap-generator'' = Some own"
    and "rules_of agents ''*'' = Some wildcard"
  shows "set (parseRobots text) = set own \<union> set wildcard"
  using assms by (simp add: parseRobots_def Let_def foldl_set_add)

lemma disallow_before_agent:
  assumes "split_on (CHR '':'') line = rawKey # rest" and "rest \<noteq> []" and "rawKey \<noteq> []"
    and "\<not> startsWith line ''#''" and "toLowerCase (trim rawKey) = ''disallow''"
  shows "robots_line (agents, []) line =
           map_option (\<lambda>a. (a, [])) (push_rule agents ''*'' (trim (join '':'' rest)))"
proof -
  have "line \<noteq> []" using assms(1,2) by (cases line) auto
  then show ?thesis using assms
    by (simp add: robots_line_def Let_def split: option.splits)
qed

section \<open>Normalised URLs\<close>


lemma lower_char_colon: "(lower_char c = CHR '':'') = (c = CHR '':'')"
  by (simp add: lower_char_def)


text \<open>The scheme that \<open>protocol = protocol.toLowerCase()\<close> leaves.\<close>

lemma lowered_scheme:
  "takeWhile (\<lambda>c. c \<noteq> CHR '':'') (toLowerCase (s @ '':'')) =
     toLowerCase (takeWhile (\<lambda>c. c \<noteq> CHR '':'') s)"
  by (induction s) (simp_all add: toLowerCase_def lower_char_colon)










lemma set_insert_by: "set (insert_by cmp x ys) = insert x (set ys)"
  by (induction ys) auto

lemma set_sort_by: "set (sort_by cmp xs) = set xs"
  by (induction xs) (simp_all add: set_insert_by)

lemma mset_insert_by: "mset (insert_by cmp x ys) = add_mset x (mset ys)"
  by (induction ys) auto

lemma mset_sort_by: "mset (sort_by cmp xs) = mset xs"
  by (induction xs) (simp_all add: mset_insert_by)

lemma sorted_insert_by:
  assumes "\<forall>a \<in> S. \<forall>b \<in> S. cmp a b \<le> 0 \<or> cmp b a \<le> 0"
    and "\<forall>a \<in> S. \<forall>b \<in> S. \<forall>c \<in> S. cmp a b \<le> 0 \<and> cmp b c \<le> 0 \<longrightarrow> cmp a c \<le> 0"
    and "x \<in> S" and "set ys \<subseteq> S" and "sorted_wrt (\<lambda>a b. cmp a b \<le> 0) ys"
  shows "sorted_wrt (\<lambda>a b. cmp a b \<le> 0) (insert_by cmp x ys)"
  using assms(4,5)
proof (induction ys)
  case Nil
  show ?case by simp
next
  case (Cons y ys)
  show ?case
  proof (cases "cmp x y \<le> 0")
    case True
    have "\<forall>z \<in> set ys. cmp x z \<le> 0"
    proof
      fix z assume z: "z \<in> set ys"
      then have "cmp y z \<le> 0" using Cons.prems(2) by simp
      then show "cmp x z \<le> 0" using True assms(2,3) Cons.prems(1) z by (meson list.set_intros subsetD)
    qed
    then show ?thesis using True Cons.prems(2) by simp
  next
    case False
    then have "cmp y x \<le> 0" using assms(1,3) Cons.prems(1) by (meson list.set_intros(1) subsetD)
    then show ?thesis using False Cons by (auto simp: set_insert_by)
  qed
qed

lemma sorted_sort_by:
  assumes "\<forall>a \<in> S. \<forall>b \<in> S. cmp a b \<le> 0 \<or> cmp b a \<le> 0"
    and "\<forall>a \<in> S. \<forall>b \<in> S. \<forall>c \<in> S. cmp a b \<le> 0 \<and> cmp b c \<le> 0 \<longrightarrow> cmp a c \<le> 0"
    and "set xs \<subseteq> S"
  shows "sorted_wrt (\<lambda>a b. cmp a b \<le> 0) (sort_by cmp xs)"
  using assms(3)
proof (induction xs)
  case Nil
  show ?case by simp
next
  case (Cons x xs)
  then show ?case
    using sorted_insert_by [OF assms(1,2), of x "sort_by cmp xs"] by (simp add: set_sort_by)
qed


text \<open>The comparator of \<open>normalizeUrl\<close> looks at the keys only.\<close>

lemma consistent_on_keys:
  assumes "consistent_on cmp K" and "fst ` S \<subseteq> K"
  shows "\<forall>a \<in> S. \<forall>b \<in> S. cmp (fst a) (fst b) \<le> 0 \<or> cmp (fst b) (fst a) \<le> 0"
    and "\<forall>a \<in> S. \<forall>b \<in> S. \<forall>c \<in> S. cmp (fst a) (fst b) \<le> 0 \<and> cmp (fst b) (fst c) \<le> 0
           \<longrightarrow> cmp (fst a) (fst c) \<le> 0"
proof -
  show "\<forall>a \<in> S. \<forall>b \<in> S. cmp (fst a) (fst b) \<le> 0 \<or> cmp (fst b) (fst a) \<le> 0"
    using assms by (simp add: consistent_on_def image_subset_iff)
  show "\<forall>a \<in> S. \<forall>b \<in> S. \<forall>c \<in> S. cmp (fst a) (fst b) \<le> 0 \<and> cmp (fst b) (fst c) \<le> 0
           \<longrightarrow> cmp (fst a) (fst c) \<le> 0"
  proof (intro ballI impI)
    fix a b c assume "a \<in> S" "b \<in> S" "c \<in> S"
      and "cmp (fst a) (fst b) \<le> 0 \<and> cmp (fst b) (fst c) \<le> 0"
    moreover have "fst a \<in> K" "fst b \<in> K" "fst c \<in> K"
      using assms(2) calculation(1,2,3) by auto
    ultimately show "cmp (fst a) (fst c) \<le> 0"
      using assms(1) unfolding consistent_on_def by blast
  qed
qed

lemma kept_params_remaining:
  "kept_params P r = sort_by (\<lambda>a b. localeCompare P (fst a) (fst b)) (remaining_params P r)"
  by (simp add: kept_params_def remaining_params_def)

lemma kept_params_sorted_remaining:
  assumes "consistent_on (localeCompare P) (fst ` set (remaining_params P r))"
  shows "sorted_wrt (\<lambda>a b. localeCompare P (fst a) (fst b) \<le> 0) (kept_params P r)"
proof -
  note c = consistent_on_keys [OF assms subset_refl]
  show ?thesis
    unfolding kept_params_remaining
    by (rule sorted_sort_by [OF c]) simp
qed


text \<open>The record \<open>normalizeUrl\<close> serialises, field by field.\<close>

lemma append_param:
  "searchParams_append P (u, acc) x =
     (u\<lparr>u_query := (if urlencoded_serialize P (acc @ [x]) = [] then None
                      else Some (urlencoded_serialize P (acc @ [x])))\<rparr>, acc @ [x])"
  by (simp add: searchParams_append_def Let_def)

lemma append_params:
  "foldl (searchParams_append P) (u, acc) ps =
     (if ps = [] then (u, acc)
      else (u\<lparr>u_query := (if urlencoded_serialize P (acc @ ps) = [] then None
                           else Some (urlencoded_serialize P (acc @ ps)))\<rparr>, acc @ ps))"
proof (induction ps arbitrary: u acc)
  case Nil
  show ?case by simp
next
  case (Cons x xs)
  show ?case by (simp add: append_param Cons)
qed

lemma lowered_protocol:
  "(takeWhile (\<lambda>c. c \<noteq> CHR '':'') (toLowerCase (s @ '':'')) @ '':'' = x @ '':'') =
   (toLowerCase (takeWhile (\<lambda>c. c \<noteq> CHR '':'') s) = x)"
  by (simp add: lowered_scheme)

lemma normalized_record:
  "normalized P r =
     r\<lparr>u_scheme := toLowerCase (takeWhile (\<lambda>c. c \<noteq> CHR '':'') (u_scheme r)),
       u_host := (if u_opaque r then u_host r else Some (toLowerCase (hostname r))),
       u_port := normal_port r,
       u_path := (if u_opaque r then u_path r else normal_path (u_path r)),
       u_query := normal_query P r,
       u_fragment := None\<rparr>"
proof -
  let ?u1 = "set_hash_empty r"
  let ?u2 = "set_protocol ?u1 (toLowerCase (protocol ?u1))"
  let ?u3 = "set_hostname ?u2 (toLowerCase (hostname ?u2))"
  let ?u4 = "if (protocol ?u3 = ''http:'' \<and> port ?u3 = ''80'') \<or>
                (protocol ?u3 = ''https:'' \<and> port ?u3 = ''443'')
             then set_port_empty ?u3 else ?u3"
  have u3: "?u3 = r\<lparr>u_scheme := toLowerCase (takeWhile (\<lambda>c. c \<noteq> CHR '':'') (u_scheme r)),
       u_host := (if u_opaque r then u_host r else Some (toLowerCase (hostname r))),
       u_fragment := None\<rparr>"
    by (simp add: set_hash_empty_def set_protocol_def protocol_def lowered_scheme
          set_hostname_def hostname_def)
  have u4: "?u4 = r\<lparr>u_scheme := toLowerCase (takeWhile (\<lambda>c. c \<noteq> CHR '':'') (u_scheme r)),
       u_host := (if u_opaque r then u_host r else Some (toLowerCase (hostname r))),
       u_port := normal_port r,
       u_fragment := None\<rparr>"
    unfolding u3
    by (simp add: protocol_def port_def set_port_empty_def normal_port_def Let_def)
  have q4: "searchParams P ?u4 = searchParams P r"
    unfolding u4 by (simp add: searchParams_def)
  let ?params = "sort_by (\<lambda>a b. localeCompare P (fst a) (fst b))
                   (filter (\<lambda>kv. fst kv \<notin> set trackingKeys) (searchParams P ?u4))"
  have params: "?params = kept_params P r"
    unfolding q4 by (simp add: kept_params_def)
  let ?u6 = "fst (foldl (searchParams_append P) (set_search_empty ?u4, []) ?params)"
  have u6: "?u6 = r\<lparr>u_scheme := toLowerCase (takeWhile (\<lambda>c. c \<noteq> CHR '':'') (u_scheme r)),
       u_host := (if u_opaque r then u_host r else Some (toLowerCase (hostname r))),
       u_port := normal_port r,
       u_query := normal_query P r,
       u_fragment := None\<rparr>"
    unfolding u4
    by (simp add: append_params set_search_empty_def normal_query_def kept_params_def
          searchParams_def)
  let ?u7 = "set_pathname ?u6 (collapse_slashes (pathname ?u6))"
  let ?u8 = "if length (pathname ?u7) > 1 \<and> endsWith (pathname ?u7) ''/''
             then set_pathname ?u7 (butlast (pathname ?u7)) else ?u7"
  have u8: "?u8 = r\<lparr>u_scheme := toLowerCase (takeWhile (\<lambda>c. c \<noteq> CHR '':'') (u_scheme r)),
       u_host := (if u_opaque r then u_host r else Some (toLowerCase (hostname r))),
       u_port := normal_port r,
       u_path := (if u_opaque r then u_path r else normal_path (u_path r)),
       u_query := normal_query P r,
       u_fragment := None\<rparr>"
    unfolding u6
    by (simp add: set_pathname_def pathname_def normal_path_def)
  have "normalized P r = ?u8"
    by (simp only: normalized_def Let_def)
  then show ?thesis using u8 by simp
qed



lemma sorted_unique:
  assumes "sorted_wrt (\<lambda>a b. cmp (fst a) (fst b) \<le> 0) xs"
    and "sorted_wrt (\<lambda>a b. cmp (fst a) (fst b) \<le> 0) ys"
    and "mset xs = mset ys" and "distinct (map fst xs)"
    and "antisymmetric_on cmp (fst ` set xs)"
  shows "xs = ys"
  using assms
proof (induction xs arbitrary: ys)
  case Nil
  then show ?case by simp
next
  case (Cons x xs)
  then obtain y ys' where ys: "ys = y # ys'" by (cases ys) auto
  have sets: "set (x # xs) = set (y # ys')" using Cons.prems(3) ys by (metis mset_eq_setD)
  have inj: "inj_on fst (set (x # xs))" using Cons.prems(4) by (simp only: distinct_map)
  have "x = y"
  proof (rule ccontr)
    assume ne: "x \<noteq> y"
    then have "x \<in> set ys'" and "y \<in> set xs" using sets by auto
    then have "cmp (fst y) (fst x) \<le> 0" and "cmp (fst x) (fst y) \<le> 0"
      using Cons.prems(1,2) ys by auto
    moreover have "fst x \<in> fst ` set (x # xs)" and "fst y \<in> fst ` set (x # xs)"
      using \<open>y \<in> set xs\<close> by auto
    ultimately have "fst x = fst y"
      using Cons.prems(5) unfolding antisymmetric_on_def by blast
    then show False using inj ne \<open>y \<in> set xs\<close> by (auto simp: inj_on_def)
  qed
  moreover have "xs = ys'"
  proof (rule Cons.IH)
    show "sorted_wrt (\<lambda>a b. cmp (fst a) (fst b) \<le> 0) xs" using Cons.prems(1) by simp
    show "sorted_wrt (\<lambda>a b. cmp (fst a) (fst b) \<le> 0) ys'" using Cons.prems(2) ys by simp
    show "mset xs = mset ys'" using Cons.prems(3) ys \<open>x = y\<close> by simp
    show "distinct (map fst xs)" using Cons.prems(4) by simp
    show "antisymmetric_on cmp (fst ` set xs)"
      using Cons.prems(5) by (auto simp: antisymmetric_on_def)
  qed
  ultimately show ?case using ys by simp
qed

lemma kept_params_equal:
  assumes "mset (remaining_params P r1) = mset (remaining_params P r2)"
    and "distinct (map fst (remaining_params P r1))"
    and "consistent_on (localeCompare P) (fst ` set (remaining_params P r1))"
    and "antisymmetric_on (localeCompare P) (fst ` set (remaining_params P r1))"
  shows "kept_params P r1 = kept_params P r2"
proof (rule sorted_unique [where cmp = "localeCompare P"])
  have same: "set (remaining_params P r1) = set (remaining_params P r2)"
    using assms(1) by (rule mset_eq_setD)
  show "sorted_wrt (\<lambda>a b. localeCompare P (fst a) (fst b) \<le> 0) (kept_params P r1)"
    using assms(3) by (rule kept_params_sorted_remaining)
  show "sorted_wrt (\<lambda>a b. localeCompare P (fst a) (fst b) \<le> 0) (kept_params P r2)"
    using assms(3) same by (simp add: kept_params_sorted_remaining)
  show "mset (kept_params P r1) = mset (kept_params P r2)"
    using assms(1) by (simp add: kept_params_remaining mset_sort_by)
  have "mset (map fst (kept_params P r1)) = mset (map fst (remaining_params P r1))"
    by (simp add: kept_params_remaining mset_sort_by)
  then show "distinct (map fst (kept_params P r1))"
    using assms(2) by (metis mset_eq_imp_distinct_iff)
  show "antisymmetric_on (localeCompare P) (fst ` set (kept_params P r1))"
    using assms(4) by (simp add: kept_params_remaining set_sort_by)
qed

lemma normalized_equal:
  assumes "differ_only P r1 r2" and "kept_params P r1 = kept_params P r2"
  shows "normalized P r1 = normalized P r2"
  unfolding normalized_record
  using assms
  by (intro url.equality) (simp_all add: differ_only_def hostname_def normal_query_def)

lemma private_path_allowed:
  "isPathAllowed ''/private/x'' (parseRobots robots_inherited_name) \<and>
   \<not> isPathAllowed ''/private/x''
       (parseRobots (''User-agent: *'' @ [CHR 0x0A] @ ''Disallow: /private''))"
  by code_simp

section \<open>The example crawl\<close>

lemma example_initial:
  "initial_state example_platform ''https://example.com'' =
     \<lparr>visited = [], discovered = [''https://example.com/''], queue = [''https://example.com''],
      contentHashes = [], debug = []\<rparr>"
  by code_simp

lemma example_first_iteration:
  "crawl_iteration example_platform ''example.com'' [] False
     \<lparr>visited = [], discovered = [''https://example.com/''], queue = [''https://example.com''],
      contentHashes = [], debug = []\<rparr> =
     \<lparr>visited = [''https://example.com/''],
      discovered = [''https://example.com/'', ''https://example.com/a''],
      queue = [''https://example.com/a''],
      contentHashes = [(''seed page'', ''https://example.com/'')], debug = []\<rparr>"
  by code_simp

lemma example_second_iteration:
  "crawl_iteration example_platform ''example.com'' [] False
     \<lparr>visited = [''https://example.com/''],
      discovered = [''https://example.com/'', ''https://example.com/a''],
      queue = [''https://example.com/a''],
      contentHashes = [(''seed page'', ''https://example.com/'')], debug = []\<rparr> =
     \<lparr>visited = [''https://example.com/'', ''https://example.com/a''],
      discovered = [''https://example.com/'', ''https://example.com/a''],
      queue = [],
      contentHashes = [(''seed page'', ''https://example.com/''),
                       (''page a'', ''https://example.com/a'')], debug = []\<rparr>"
  by code_simp

lemma example_loop:
  "crawl_loop example_platform ''example.com'' [] False 50
     (initial_state example_platform ''https://example.com'') =
     \<lparr>visited = [''https://example.com/'', ''https://example.com/a''],
      discovered = [''https://example.com/'', ''https://example.com/a''],
      queue = [],
      contentHashes = [(''seed page'', ''https://example.com/''),
                       (''page a'', ''https://example.com/a'')], debug = []\<rparr>"
  by (simp add: example_initial crawl_loop_run example_first_iteration
        example_second_iteration crawl_loop_stop)

text \<open>The same crawl over any site with the seed page of the example.\<close>

lemma example_urls:
  "normalizeUrl (simple_platform web robots links) ''https://example.com'' = Some ''https://example.com/''"
  "isSkippableResource (simple_platform web robots links) ''https://example.com'' = False"
  "map_option pathname (parseURL (simple_platform web robots links) ''https://example.com'') = Some ''/''"
  "map_option hostname (parseURL (simple_platform web robots links) ''https://example.com'') = Some ''example.com''"
  "normalizeUrl (simple_platform web robots links) ''https://example.com/a'' = Some ''https://example.com/a''"
  "isSkippableResource (simple_platform web robots links) ''https://example.com/a'' = False"
  "map_option pathname (parseURL (simple_platform web robots links) ''https://example.com/a'') = Some ''/a''"
  by code_simp+

lemma example_link_a:
  "extract_link (simple_platform web robots links) ''example.com'' b ''https://example.com''
     ''https://example.com/'' s ''https://example.com/a'' =
     (if ''https://example.com/a'' \<in> set (discovered s) then s
      else push_debug b ''https://example.com/a'' ''https://example.com/a''
             (Discovered ''https://example.com/'')
             (s\<lparr>discovered := set_add (discovered s) ''https://example.com/a'',
                queue := queue s @ [''https://example.com/a'']\<rparr>))"
  by code_simp

lemma example_link_a_section:
  "extract_link (simple_platform web robots links) ''example.com'' b ''https://example.com''
     ''https://example.com/'' s ''https://example.com/a#section'' =
     (if ''https://example.com/a'' \<in> set (discovered s) then s
      else push_debug b ''https://example.com/a#section'' ''https://example.com/a''
             (Discovered ''https://example.com/'')
             (s\<lparr>discovered := set_add (discovered s) ''https://example.com/a'',
                queue := queue s @ [''https://example.com/a#section'']\<rparr>))"
  by code_simp

lemma example_link_other:
  "extract_link (simple_platform web robots links) ''example.com'' b ''https://example.com''
     ''https://example.com/'' s ''http://other.com/b'' = s"
  by code_simp

lemma example_link_logo:
  "extract_link (simple_platform web robots links) ''example.com'' b ''https://example.com''
     ''https://example.com/'' s ''https://example.com/logo.png'' = s"
  by code_simp

lemma simple_platform_fields:
  "httpGet (simple_platform web robots links) = web"
  "hrefs (simple_platform web robots links) = (\<lambda>html. Some (links html))"
  "sha256 (simple_platform web robots links) = (\<lambda>x. x)"
  by (simp_all add: simple_platform_def)

lemma example_first:
  assumes "web ''https://example.com'' = Response status html" and "200 \<le> status \<and> status < 300"
    and "links html = [''https://example.com/a'', ''https://example.com/a#section'',
                       ''http://other.com/b'', ''https://example.com/logo.png'']"
    and "isPathAllowed ''/'' r"
  shows "visited (crawl_iteration (simple_platform web robots links) ''example.com'' r b
            (initial_state (simple_platform web robots links) ''https://example.com''))
           = [''https://example.com/'']"
    and "discovered (crawl_iteration (simple_platform web robots links) ''example.com'' r b
            (initial_state (simple_platform web robots links) ''https://example.com''))
           = [''https://example.com/'', ''https://example.com/a'']"
    and "queue (crawl_iteration (simple_platform web robots links) ''example.com'' r b
            (initial_state (simple_platform web robots links) ''https://example.com''))
           = [''https://example.com/a'']"
    and "contentHashes (crawl_iteration (simple_platform web robots links) ''example.com'' r b
            (initial_state (simple_platform web robots links) ''https://example.com''))
           = [(html, ''https://example.com/'')]"
proof -
  let ?P = "simple_platform web robots links"
  obtain su where su: "parseURL ?P ''https://example.com'' = Some su" "pathname su = ''/''"
    using example_urls(3) [of web robots links] by auto
  have it: "crawl_iteration ?P ''example.com'' r b (initial_state ?P ''https://example.com'') =
        fetch_page ?P ''example.com'' b ''https://example.com'' ''https://example.com/''
          \<lparr>visited = [], discovered = [''https://example.com/''], queue = [],
           contentHashes = [], debug = []\<rparr>"
    using su assms(4)
    by (simp add: crawl_iteration_def initial_state_def example_urls Let_def set_add_def)
  show "visited (crawl_iteration ?P ''example.com'' r b (initial_state ?P ''https://example.com''))
           = [''https://example.com/'']"
    unfolding it using assms(1,2,3)
    by (simp add: fetch_page_def Let_def simple_platform_fields push_debug_fields set_add_def)
  show "discovered (crawl_iteration ?P ''example.com'' r b (initial_state ?P ''https://example.com''))
           = [''https://example.com/'', ''https://example.com/a'']"
    unfolding it using assms(1,2,3)
    by (simp add: fetch_page_def Let_def simple_platform_fields push_debug_fields set_add_def
          example_link_a example_link_a_section example_link_other example_link_logo)
  show "queue (crawl_iteration ?P ''example.com'' r b (initial_state ?P ''https://example.com''))
           = [''https://example.com/a'']"
    unfolding it using assms(1,2,3)
    by (simp add: fetch_page_def Let_def simple_platform_fields push_debug_fields set_add_def
          example_link_a example_link_a_section example_link_other example_link_logo)
  show "contentHashes (crawl_iteration ?P ''example.com'' r b (initial_state ?P ''https://example.com''))
           = [(html, ''https://example.com/'')]"
    unfolding it using assms(1,2,3)
    by (simp add: fetch_page_def Let_def simple_platform_fields push_debug_fields set_add_def
          example_link_a example_link_a_section example_link_other example_link_logo)
qed


lemma example_second:
  assumes v: "visited s = [''https://example.com/'']"
    and d: "discovered s = [''https://example.com/'', ''https://example.com/a'']"
    and q: "queue s = [''https://example.com/a'']"
    and c: "contentHashes s = [(html, ''https://example.com/'')]"
    and a: "\<forall>st body. web ''https://example.com/a'' = Response st body \<longrightarrow> body = html \<or> links body = []"
  shows "discovered (crawl_iteration (simple_platform web robots links) ''example.com'' r b s)
           = [''https://example.com/'', ''https://example.com/a'']"
    and "queue (crawl_iteration (simple_platform web robots links) ''example.com'' r b s) = []"
    and "visited (crawl_iteration (simple_platform web robots links) ''example.com'' r b s)
           = [''https://example.com/''] \<or>
         visited (crawl_iteration (simple_platform web robots links) ''example.com'' r b s)
           = [''https://example.com/'', ''https://example.com/a'']"
proof -
  let ?P = "simple_platform web robots links"
  let ?t = "s\<lparr>queue := []\<rparr>"
  let ?f = "fetch_page ?P ''example.com'' b ''https://example.com/a'' ''https://example.com/a'' ?t"
  obtain ua where ua: "parseURL ?P ''https://example.com/a'' = Some ua" "pathname ua = ''/a''"
    using example_urls(7) [of web robots links] by auto
  have it: "crawl_iteration ?P ''example.com'' r b s =
      (if \<not> isPathAllowed ''/a'' r
       then mark_discovered b ''https://example.com/a'' ''https://example.com/a''
              (DisallowedByRobots ''/a'') ?t
       else ?f)"
    using ua v q by (simp add: crawl_iteration_def example_urls Let_def)
  have f: "discovered ?f = [''https://example.com/'', ''https://example.com/a''] \<and> queue ?f = [] \<and>
           (visited ?f = [''https://example.com/''] \<or>
            visited ?f = [''https://example.com/'', ''https://example.com/a''])"
  proof (cases "web ''https://example.com/a''")
    case Failed
    then show ?thesis using v d
      by (simp add: fetch_page_def simple_platform_fields mark_discovered_fields push_debug_fields
            set_add_def)
  next
    case (Response st body)
    then have "body = html \<or> links body = []" using a by blast
    then show ?thesis using Response v d c
      by (auto simp: fetch_page_def simple_platform_fields mark_discovered_fields push_debug_fields
            set_add_def Let_def)
  qed
  show "discovered (crawl_iteration ?P ''example.com'' r b s)
           = [''https://example.com/'', ''https://example.com/a'']"
    using f d by (simp add: it mark_discovered_fields set_add_def)
  show "queue (crawl_iteration ?P ''example.com'' r b s) = []"
    using f by (simp add: it mark_discovered_fields)
  show "visited (crawl_iteration ?P ''example.com'' r b s) = [''https://example.com/''] \<or>
        visited (crawl_iteration ?P ''example.com'' r b s)
           = [''https://example.com/'', ''https://example.com/a'']"
    using f v by (auto simp: it mark_discovered_fields)
qed

section \<open>Claims\<close>

text \<open>
  C4. In every state of a crawl every URL of the visited set is in the discovered set.
  The states are those in which the loop condition is evaluated, the last one being the
  state \<open>crawlWebsite\<close> builds its result from; inside an iteration \<open>discovered\<close> only
  grows and \<open>visited\<close> changes once, in the last statement of the successful path, by the
  normalised URL of the entry taken from the queue, which is discovered since the entry
  was queued.
\<close>

theorem visited_subset_discovered:
  assumes "crawl_states P startHost robots includeDebug maxPages (initial_state P startUrl) s"
  shows "set (visited s) \<subseteq> set (discovered s)"
  using crawl_states_known [OF assms] by (simp add: known_def)

theorem visited_subset_discovered_witness:
  "crawl_states example_platform ''example.com'' [] False 50
     (initial_state example_platform ''https://example.com'')
     (crawl_loop example_platform ''example.com'' [] False 50
        (initial_state example_platform ''https://example.com''))
   \<and> visited (crawl_loop example_platform ''example.com'' [] False 50
        (initial_state example_platform ''https://example.com''))
       = [''https://example.com/'', ''https://example.com/a'']
   \<and> set (visited (crawl_loop example_platform ''example.com'' [] False 50
        (initial_state example_platform ''https://example.com'')))
     \<subseteq> set (discovered (crawl_loop example_platform ''example.com'' [] False 50
        (initial_state example_platform ''https://example.com'')))"
proof -
  have st: "crawl_states example_platform ''example.com'' [] False 50
     (initial_state example_platform ''https://example.com'')
     (crawl_loop example_platform ''example.com'' [] False 50
        (initial_state example_platform ''https://example.com''))"
    by (rule crawl_loop_state) (rule crawl_states.first)
  have v: "visited (crawl_loop example_platform ''example.com'' [] False 50
        (initial_state example_platform ''https://example.com''))
       = [''https://example.com/'', ''https://example.com/a'']"
    by (simp add: example_loop)
  show ?thesis using st v visited_subset_discovered [OF st] by blast
qed

text \<open>
  C3 as stated fails in its second part: with \<open>maxPages = 1\<close> the seed is requested and
  answered with status 200, the crawler stores its digest and records it as fetched, and
  yet nothing is visited, because \<open>cheerio.load\<close> throws for the answer and the \<open>catch\<close>
  of the loop body takes the URL as discovered only.
\<close>

theorem page_cap_counterexample:
  "httpGet number_platform ''https://example.com/'' = Response 200 ''123'' \<and>
   map_option (\<lambda>r. (r_visited r, r_discovered r, map_option (map d_action) (r_debug r)))
     (crawlWebsite number_platform ''https://example.com/'' 1 True) =
     Some ([], [''https://example.com/''], Some [Fetching, Fetched ''123'', FetchError])"
proof -
  have "httpGet number_platform ''https://example.com/'' = Response 200 ''123''"
    by (simp add: number_platform_def simple_platform_def)
  moreover have
    "map_option (\<lambda>r. (r_visited r, r_discovered r, map_option (map d_action) (r_debug r)))
       (crawlWebsite number_platform ''https://example.com/'' 1 True) =
       Some ([], [''https://example.com/''], Some [Fetching, Fetched ''123'', FetchError])"
    by code_simp
  ultimately show ?thesis by simp
qed

text \<open>
  C3, amended. The visited set never has more than \<open>maxPages\<close> elements, and from a state
  in which it has that many the loop returns at once, taking nothing more from the queue.
  With \<open>maxPages = 1\<close> and a seed that is fetched with success and loaded by cheerio
  without an exception (the seed is no resource file, the rules of \<open>robots.txt\<close> allow its
  path, the answer has a 2xx status and \<open>cheerio.load\<close> returns) the loop ends after its
  first iteration: the visited set is the normalised seed alone, whatever links the page
  has.
\<close>

theorem page_cap:
  "(crawl_states P startHost robots includeDebug maxPages (initial_state P startUrl) s \<longrightarrow>
      length (visited s) \<le> maxPages \<and>
      (maxPages \<le> length (visited s) \<longrightarrow>
         crawl_loop P startHost robots includeDebug maxPages s = s)) \<and>
   (normalizeUrl P startUrl = Some n \<and> fetched_ok P robots startUrl \<longrightarrow>
      crawl_loop P startHost robots includeDebug 1 (initial_state P startUrl) =
        crawl_iteration P startHost robots includeDebug (initial_state P startUrl) \<and>
      visited (crawl_loop P startHost robots includeDebug 1 (initial_state P startUrl)) = [n])"
proof (intro conjI impI)
  assume "crawl_states P startHost robots includeDebug maxPages (initial_state P startUrl) s"
  then show "length (visited s) \<le> maxPages"
    using crawl_states_visited_bound [of P startHost robots includeDebug maxPages _ s]
    by (simp add: initial_state_fields)
next
  assume "maxPages \<le> length (visited s)"
  then show "crawl_loop P startHost robots includeDebug maxPages s = s"
    by (simp add: crawl_loop_stop)
next
  assume a: "normalizeUrl P startUrl = Some n \<and> fetched_ok P robots startUrl"
  let ?s0 = "initial_state P startUrl"
  let ?s1 = "crawl_iteration P startHost robots includeDebug ?s0"
  obtain status html where g: "httpGet P startUrl = Response status html"
    using a by (auto simp: fetched_ok_def split: response.splits)
  have v1: "visited ?s1 = [n]"
    using crawl_iteration_fetch [of ?s0 startUrl "[]" P n robots status html startHost includeDebug] a g
    by (simp add: initial_state_fields)
  have "crawl_loop P startHost robots includeDebug 1 ?s0 =
        crawl_loop P startHost robots includeDebug 1 ?s1"
    by (simp add: crawl_loop_run initial_state_fields)
  also have "\<dots> = ?s1" using v1 by (simp add: crawl_loop_stop)
  finally show l: "crawl_loop P startHost robots includeDebug 1 ?s0 = ?s1" .
  show "visited (crawl_loop P startHost robots includeDebug 1 ?s0) = [n]"
    using l v1 by simp
qed

theorem page_cap_witness:
  "crawl_states example_platform ''example.com'' [] False 1
     (initial_state example_platform ''https://example.com'')
     (crawl_iteration example_platform ''example.com'' [] False
        (initial_state example_platform ''https://example.com''))
   \<and> length (visited (crawl_iteration example_platform ''example.com'' [] False
        (initial_state example_platform ''https://example.com''))) = 1
   \<and> normalizeUrl example_platform ''https://example.com'' = Some ''https://example.com/''
   \<and> fetched_ok example_platform [] ''https://example.com''
   \<and> visited (crawl_loop example_platform ''example.com'' [] False 1
        (initial_state example_platform ''https://example.com'')) = [''https://example.com/'']
   \<and> queue (crawl_loop example_platform ''example.com'' [] False 1
        (initial_state example_platform ''https://example.com'')) = [''https://example.com/a'']"
proof -
  let ?s0 = "initial_state example_platform ''https://example.com''"
  let ?s1 = "crawl_iteration example_platform ''example.com'' [] False ?s0"
  have st: "crawl_states example_platform ''example.com'' [] False 1 ?s0 ?s1"
    by (rule crawl_states.iteration [OF crawl_states.first]) (simp add: example_initial)
  have n: "normalizeUrl example_platform ''https://example.com'' = Some ''https://example.com/''"
    by code_simp
  have f: "fetched_ok example_platform [] ''https://example.com''"
    by code_simp
  have l: "length (visited ?s1) = 1" and q: "queue ?s1 = [''https://example.com/a'']"
    by (simp_all add: example_initial example_first_iteration)
  note cap = page_cap [of example_platform "''example.com''" "[]" False 1
                       "''https://example.com''" ?s1 "''https://example.com/''"]
  have a: "crawl_loop example_platform ''example.com'' [] False 1 ?s0 = ?s1"
    using cap n f by blast
  have b: "visited (crawl_loop example_platform ''example.com'' [] False 1 ?s0)
             = [''https://example.com/'']"
    using cap n f by blast
  have c: "queue (crawl_loop example_platform ''example.com'' [] False 1 ?s0)
             = [''https://example.com/a'']"
    using a q by simp
  show ?thesis using st n f l b c by blast
qed

text \<open>
  C5. The entries of the queue have pairwise different normalised forms, all of them
  discovered, and every URL an iteration pushes has a normalised form that was not
  discovered when the iteration began: a URL whose normalised form is discovered is not
  pushed again. The seed is pushed before its normalised form is recorded, so the
  unconditional push does not break this.
\<close>

theorem no_duplicate_frontier_entries:
  assumes "parseURL P startUrl \<noteq> None"
    and "crawl_states P startHost robots includeDebug maxPages (initial_state P startUrl) s"
  shows "distinct (map (normalizeUrl P) (queue s)) \<and>
         (\<forall>q \<in> set (queue s). \<exists>n. normalizeUrl P q = Some n \<and> n \<in> set (discovered s)) \<and>
         (\<forall>q \<in> set (enqueued P startHost robots includeDebug s).
            \<exists>n. normalizeUrl P q = Some n \<and> n \<notin> set (discovered s))"
proof -
  have fd: "frontier_distinct P s" using crawl_states_frontier assms by blast
  have "\<forall>q \<in> set (enqueued P startHost robots includeDebug s).
            \<exists>n. normalizeUrl P q = Some n \<and> n \<notin> set (discovered s)"
  proof (cases "queue s")
    case Nil
    then show ?thesis by (simp add: enqueued_def crawl_iteration_def)
  next
    case (Cons current rest)
    obtain new where new: "queue (crawl_iteration P startHost robots includeDebug s) = rest @ new"
     "\<forall>q \<in> set new. \<exists>k. normalizeUrl P q = Some k \<and> k \<notin> set (discovered s) \<and>
         k \<in> set (discovered (crawl_iteration P startHost robots includeDebug s))"
      using crawl_iteration_queue [OF Cons, of P startHost robots includeDebug] by blast
    have "enqueued P startHost robots includeDebug s = new"
      using new(1) Cons by (simp add: enqueued_def)
    then show ?thesis using new(2) by blast
  qed
  then show ?thesis using fd by (simp add: frontier_distinct_def)
qed

theorem no_duplicate_frontier_entries_witness:
  "parseURL example_platform ''https://example.com'' \<noteq> None
   \<and> crawl_states example_platform ''example.com'' [] False 50
       (initial_state example_platform ''https://example.com'')
       (initial_state example_platform ''https://example.com'')
   \<and> queue (initial_state example_platform ''https://example.com'') = [''https://example.com'']
   \<and> enqueued example_platform ''example.com'' [] False
       (initial_state example_platform ''https://example.com'') = [''https://example.com/a'']
   \<and> normalizeUrl example_platform ''https://example.com/a'' = Some ''https://example.com/a''
   \<and> ''https://example.com/a'' \<notin> set (discovered (initial_state example_platform ''https://example.com''))
   \<and> distinct (map (normalizeUrl example_platform)
         (queue (initial_state example_platform ''https://example.com'')))"
proof -
  let ?s0 = "initial_state example_platform ''https://example.com''"
  have p: "parseURL example_platform ''https://example.com'' \<noteq> None"
    by code_simp
  have st: "crawl_states example_platform ''example.com'' [] False 50 ?s0 ?s0"
    by (rule crawl_states.first)
  have e: "enqueued example_platform ''example.com'' [] False ?s0 = [''https://example.com/a'']"
    by (simp add: enqueued_def example_initial example_first_iteration)
  have n: "normalizeUrl example_platform ''https://example.com/a'' = Some ''https://example.com/a''"
    by code_simp
  show ?thesis
    using p st e n no_duplicate_frontier_entries [OF p st]
    by (simp add: example_initial)
qed

text \<open>
  C6 as stated fails: on a site whose every page has the same content, a body that
  \<open>cheerio.load\<close> throws for, the seed is requested and answered with status 200, the
  crawler records it as fetched, and the visited set of the finished crawl is empty.
\<close>

theorem identical_content_counterexample:
  "identical_content number_platform ''123'' \<and>
   httpGet number_platform ''https://example.com/'' = Response 200 ''123'' \<and>
   map_option (\<lambda>r. (r_visited r, urlsInSitemap (r_stats r), map_option (map d_action) (r_debug r)))
     (crawlWebsite number_platform ''https://example.com/'' 50 True) =
     Some ([], 0, Some [Fetching, Fetched ''123'', FetchError])"
proof -
  have "identical_content number_platform ''123''"
    by (simp add: identical_content_def number_platform_def simple_platform_def)
  moreover have "httpGet number_platform ''https://example.com/'' = Response 200 ''123''"
    by (simp add: number_platform_def simple_platform_def)
  moreover have
    "map_option (\<lambda>r. (r_visited r, urlsInSitemap (r_stats r), map_option (map d_action) (r_debug r)))
       (crawlWebsite number_platform ''https://example.com/'' 50 True) =
       Some ([], 0, Some [Fetching, Fetched ''123'', FetchError])"
    by code_simp
  ultimately show ?thesis by simp
qed

text \<open>
  C6, amended. When every answer of the site has the same body, the visited set of a
  finished crawl has at most one element, and exactly one when the seed is fetched with
  success and loaded by cheerio without an exception (\<open>maxPages\<close> is positive, the seed is
  no resource file, the rules of \<open>robots.txt\<close> allow its path, the answer has a 2xx status
  and \<open>cheerio.load\<close> returns), however many internal links there are.
\<close>

theorem identical_content_one_page:
  assumes "identical_content P body"
    and "final_state P startUrl maxPages includeDebug = Some s"
  shows "length (visited s) \<le> 1 \<and>
         (0 < maxPages \<and> fetched_ok P (fetchRobots P startUrl) startUrl \<longrightarrow>
            length (visited s) = 1)"
proof (intro conjI impI)
  obtain su where su: "parseURL P startUrl = Some su"
    using assms(2) by (auto simp: final_state_def split: option.splits)
  let ?h = "hostname su" and ?r = "fetchRobots P startUrl"
  let ?s0 = "initial_state P startUrl"
  let ?s1 = "crawl_iteration P ?h ?r includeDebug ?s0"
  have s: "s = crawl_loop P ?h ?r includeDebug maxPages ?s0"
    using assms(2) su by (simp add: final_state_def)
  have st: "crawl_states P ?h ?r includeDebug maxPages ?s0 s"
    unfolding s by (rule crawl_loop_state) (rule crawl_states.first)
  have "one_page P body ?s0" by (simp add: one_page_def initial_state_fields)
  then have "one_page P body s" using st assms(1) crawl_states_one_page by blast
  then show le: "length (visited s) \<le> 1" by (auto simp: one_page_def)
  assume a: "0 < maxPages \<and> fetched_ok P ?r startUrl"
  have n: "normalizeUrl P startUrl = Some (toString (normalized P su))"
    using su by (simp add: normalizeUrl_def)
  obtain status html where g: "httpGet P startUrl = Response status html"
    using a by (auto simp: fetched_ok_def split: response.splits)
  have v1: "visited ?s1 = [toString (normalized P su)]"
    using crawl_iteration_fetch [of ?s0 startUrl "[]" P _ ?r status html ?h includeDebug] a g n
    by (simp add: initial_state_fields)
  have run: "s = crawl_loop P ?h ?r includeDebug maxPages ?s1"
    using a by (simp add: s crawl_loop_run initial_state_fields)
  have "crawl_states P ?h ?r includeDebug maxPages ?s1
          (crawl_loop P ?h ?r includeDebug maxPages ?s1)"
    by (rule crawl_loop_state) (rule crawl_states.first)
  then have "length (visited ?s1) \<le> length (visited s)"
    using run crawl_states_visited_grows by metis
  then show "length (visited s) = 1" using v1 le by simp
qed

theorem identical_content_one_page_witness:
  "identical_content same_platform ''same page'' \<and>
   fetched_ok same_platform (fetchRobots same_platform ''https://example.com/'') ''https://example.com/'' \<and>
   map_option discovered (final_state same_platform ''https://example.com/'' 50 False) =
     Some [''https://example.com/'', ''https://example.com/a'', ''https://example.com/b''] \<and>
   map_option (\<lambda>s. length (visited s)) (final_state same_platform ''https://example.com/'' 50 False) =
     Some 1"
proof -
  have ic: "identical_content same_platform ''same page''"
    by (simp add: identical_content_def same_platform_def simple_platform_def)
  have ok: "fetched_ok same_platform (fetchRobots same_platform ''https://example.com/'')
              ''https://example.com/''"
    by code_simp
  have d: "map_option discovered (final_state same_platform ''https://example.com/'' 50 False) =
     Some [''https://example.com/'', ''https://example.com/a'', ''https://example.com/b'']"
    by code_simp
  then obtain s where s: "final_state same_platform ''https://example.com/'' 50 False = Some s"
    by auto
  have "length (visited s) = 1"
    using identical_content_one_page [OF ic s] ok by simp
  then show ?thesis using ic ok d s by simp
qed

text \<open>
  C10. In every successful answer of \<open>POST /api/generate-sitemap\<close> the document has as
  many \<open><url>\<close> tags as \<open>stats.urlsInSitemap\<close> says, and at most 50: the visited list holds
  no empty string, so \<open>filter(Boolean)\<close> keeps all of it, it is no longer than the page cap,
  so \<open>slice(0, 50)\<close> keeps all of it, and the renderer writes one entry for each of its
  URLs. The platform is assumed to write numbers and the date without the character
  \<open><\<close>.
\<close>

theorem sitemap_entries_match_stats:
  assumes "generate_sitemap P body = Status200 p"
    and "\<forall>x. CHR ''<'' \<notin> set (numberToString P x)" and "CHR ''<'' \<notin> set (today P)"
  shows "occurrences ''<url>'' (sitemapXML p) = urlsInSitemap (stats p) \<and>
         urlsInSitemap (stats p) \<le> 50"
proof -
  obtain data where d: "validateSitemapRequest P body = Inr data"
    using assms(1) by (auto simp: generate_sitemap_def split: sum.splits)
  obtain su where su: "parseURL P (q_url data) = Some su"
    using assms(1) d by (auto simp: generate_sitemap_def split: option.splits)
  let ?dbg = "case q_includeDebug data of None \<Rightarrow> False | Some b \<Rightarrow> b"
  obtain r where r: "crawlWebsite P (toString su) 50 ?dbg = Some r"
    using assms(1) d su by (auto simp: generate_sitemap_def Let_def split: option.splits)
  let ?opts = "\<lparr>o_changeFreq = q_changeFreq data, o_priority = q_priority data,
                 o_includeLastMod = q_includeLastMod data\<rparr>"
  have p: "sitemapXML p = generateSitemapXML P (take 50 (r_visited r)) ?opts"
          "stats p = r_stats r"
    using assms(1) d su r by (auto simp: generate_sitemap_def Let_def)
  have v: "urlsInSitemap (r_stats r) = length (r_visited r)" "length (r_visited r) \<le> 50"
    using crawlWebsite_visited [OF r] by simp_all
  have cf: "\<forall>c. o_changeFreq ?opts = Some c \<longrightarrow> CHR ''<'' \<notin> set c"
    using validate_changeFreq [OF d] enum_no_lt by auto
  have "occurrences ''<url>'' (sitemapXML p) = length (take 50 (r_visited r))"
    unfolding p using generateSitemapXML_url [OF assms(2,3) cf] by simp
  then show ?thesis using p v by simp
qed

theorem sitemap_entries_match_stats_witness:
  "(\<forall>x. CHR ''<'' \<notin> set (numberToString example_platform x)) \<and>
   CHR ''<'' \<notin> set (today example_platform) \<and>
   (\<exists>p. generate_sitemap example_platform (JObject [(''url'', JString ''https://example.com'')])
          = Status200 p \<and>
        urlsInSitemap (stats p) = 2 \<and> occurrences ''<url>'' (sitemapXML p) = 2)"
proof -
  have num: "\<forall>x. CHR ''<'' \<notin> set (numberToString example_platform x)"
    by (simp add: example_platform_def simple_platform_def one_decimal_no_lt)
  have date: "CHR ''<'' \<notin> set (today example_platform)"
    by (simp add: example_platform_def simple_platform_def)
  have "case generate_sitemap example_platform (JObject [(''url'', JString ''https://example.com'')])
        of Status200 p \<Rightarrow> urlsInSitemap (stats p) = 2 | _ \<Rightarrow> False"
    by code_simp
  then obtain p where p:
    "generate_sitemap example_platform (JObject [(''url'', JString ''https://example.com'')])
       = Status200 p" "urlsInSitemap (stats p) = 2"
    by (auto split: http_response.splits)
  have "occurrences ''<url>'' (sitemapXML p) = 2"
    using sitemap_entries_match_stats [OF p(1) num date] p(2) by simp
  then show ?thesis using num date p by blast
qed

text \<open>
  C2. When the body of a request passes validation and has no \<open>includeLastMod\<close> property,
  the document of the answer has no \<open><lastmod>\<close> tag. The schema does name the default
  \<open>true\<close>, but under the \<open>optional()\<close> that wraps it: for a missing property the validated
  data has no \<open>includeLastMod\<close>, and the renderer's own default \<open>false\<close> applies. The
  platform is assumed to write numbers without the character \<open><\<close>.
\<close>

theorem lastmod_absent_by_default:
  assumes "generate_sitemap P (JObject props) = Status200 p"
    and "map_of props ''includeLastMod'' = None"
    and "\<forall>x. CHR ''<'' \<notin> set (numberToString P x)"
  shows "occurrences ''<lastmod>'' (sitemapXML p) = 0"
proof -
  obtain data where d: "validateSitemapRequest P (JObject props) = Inr data"
    using assms(1) by (auto simp: generate_sitemap_def split: sum.splits)
  obtain su where su: "parseURL P (q_url data) = Some su"
    using assms(1) d by (auto simp: generate_sitemap_def split: option.splits)
  let ?dbg = "case q_includeDebug data of None \<Rightarrow> False | Some b \<Rightarrow> b"
  obtain r where r: "crawlWebsite P (toString su) 50 ?dbg = Some r"
    using assms(1) d su by (auto simp: generate_sitemap_def Let_def split: option.splits)
  let ?opts = "\<lparr>o_changeFreq = q_changeFreq data, o_priority = q_priority data,
                 o_includeLastMod = q_includeLastMod data\<rparr>"
  have p: "sitemapXML p = generateSitemapXML P (take 50 (r_visited r)) ?opts"
    using assms(1) d su r by (auto simp: generate_sitemap_def Let_def)
  have "q_includeLastMod data = None"
    using validate_includeLastMod [OF d] assms(2)
    by (simp add: includeLastMod_schema_def zod_optional_default_absent)
  then have l: "o_includeLastMod ?opts = None \<or> o_includeLastMod ?opts = Some False" by simp
  have cf: "\<forall>c. o_changeFreq ?opts = Some c \<longrightarrow> CHR ''<'' \<notin> set c"
    using validate_changeFreq [OF d] enum_no_lt by auto
  show ?thesis unfolding p using generateSitemapXML_lastmod [OF assms(3) cf l] by simp
qed

theorem lastmod_absent_by_default_witness:
  "map_of [(''url'', JString ''https://example.com'')] ''includeLastMod'' = None \<and>
   (\<forall>x. CHR ''<'' \<notin> set (numberToString example_platform x)) \<and>
   (\<exists>p. generate_sitemap example_platform (JObject [(''url'', JString ''https://example.com'')])
          = Status200 p \<and>
        urlsInSitemap (stats p) = 2 \<and> occurrences ''<lastmod>'' (sitemapXML p) = 0)"
proof -
  have num: "\<forall>x. CHR ''<'' \<notin> set (numberToString example_platform x)"
    by (simp add: example_platform_def simple_platform_def one_decimal_no_lt)
  have absent: "map_of [(''url'', JString ''https://example.com'')] ''includeLastMod'' = None"
    by simp
  have "case generate_sitemap example_platform (JObject [(''url'', JString ''https://example.com'')])
        of Status200 p \<Rightarrow> urlsInSitemap (stats p) = 2 | _ \<Rightarrow> False"
    by code_simp
  then obtain p where p:
    "generate_sitemap example_platform (JObject [(''url'', JString ''https://example.com'')])
       = Status200 p" "urlsInSitemap (stats p) = 2"
    by (auto split: http_response.splits)
  have "occurrences ''<lastmod>'' (sitemapXML p) = 0"
    using lastmod_absent_by_default [OF p(1) absent num] .
  then show ?thesis using num absent p by blast
qed

text \<open>
  C7. The parser stores a \<open>Disallow\<close> line that comes before any \<open>User-agent\<close> line under
  \<open>*\<close>, and when its loop ends without an exception the set it returns is the union of
  the rules under \<open>sitemap-generator\<close> and under \<open>*\<close> (lemmas \<open>disallow_before_agent\<close> and
  \<open>parseRobots_union\<close>; the first file below shows both). It does not do so for every
  file: \<open>agents\<close> is a plain object, so for the agent name \<open>constructor\<close> (or \<open>__proto__\<close>) the
  lookup finds an inherited value that is no array, \<open>push\<close> throws, and the \<open>catch\<close> of
  \<open>fetchRobots\<close> returns the empty set. The rule \<open>/private\<close> of the wildcard agent is
  lost, and the path \<open>/private/x\<close> counts as allowed (lemma \<open>private_path_allowed\<close>).
\<close>

theorem robots_rules_lost:
  "parseRobots robots_plain = [''/own'', ''/early'', ''/private''] \<and>
   parseRobots (''User-agent: *'' @ [CHR 0x0A] @ ''Disallow: /private'') = [''/private''] \<and>
   parseRobots robots_inherited_name = [] \<and>
   fetchRobots (simple_platform (\<lambda>u. Failed) (Response 200 robots_inherited_name) (\<lambda>h. []))
     ''https://example.com/'' = []"
  by code_simp

text \<open>
  C1 as stated fails: the crawl of the example site discovers two URLs, not four. The
  callback returns for an external link and for a resource file before it touches the
  discovered set, and \<open>/a#section\<close> has the normalised form of \<open>/a\<close>.
\<close>

theorem example_site_counterexample:
  "map_option (\<lambda>r. (r_discovered r, urlsDiscovered (r_stats r), r_visited r))
     (crawlWebsite example_platform ''https://example.com'' 50 False) =
   Some ([''https://example.com/'', ''https://example.com/a''], 2,
         [''https://example.com/'', ''https://example.com/a''])"
  by code_simp

text \<open>
  C1, amended. For a seed \<open>https://example.com\<close> that is fetched with success and whose page
  links to \<open>https://example.com/a\<close>, \<open>https://example.com/a#section\<close>, \<open>http://other.com/b\<close>
  and \<open>https://example.com/logo.png\<close>, where the page \<open>/a\<close> adds no links of its own: after
  a crawl with \<open>maxPages = 50\<close> the discovered set has the two entries
  \<open>https://example.com/\<close> and \<open>https://example.com/a\<close>, and the visited set is the seed
  alone or the seed and \<open>/a\<close>. The URL library is the small one of the examples; the
  site, its \<open>robots.txt\<close> and the debug flag are arbitrary.
\<close>

theorem example_site_discovered:
  assumes "web ''https://example.com'' = Response status html" and "200 \<le> status \<and> status < 300"
    and "links html = [''https://example.com/a'', ''https://example.com/a#section'',
                       ''http://other.com/b'', ''https://example.com/logo.png'']"
    and "isPathAllowed ''/'' (fetchRobots (simple_platform web robots links) ''https://example.com'')"
    and "\<forall>st body. web ''https://example.com/a'' = Response st body \<longrightarrow> body = html \<or> links body = []"
  shows "\<exists>r. crawlWebsite (simple_platform web robots links) ''https://example.com'' 50 includeDebug
               = Some r \<and>
             r_discovered r = [''https://example.com/'', ''https://example.com/a''] \<and>
             urlsDiscovered (r_stats r) = 2 \<and>
             (r_visited r = [''https://example.com/''] \<or>
              r_visited r = [''https://example.com/'', ''https://example.com/a''])"
proof -
  let ?P = "simple_platform web robots links"
  let ?r = "fetchRobots ?P ''https://example.com''"
  let ?s0 = "initial_state ?P ''https://example.com''"
  let ?s1 = "crawl_iteration ?P ''example.com'' ?r includeDebug ?s0"
  let ?s2 = "crawl_iteration ?P ''example.com'' ?r includeDebug ?s1"
  note one = example_first [where web = web and links = links and robots = robots
      and status = status and html = html and r = ?r and b = includeDebug, OF assms(1,2,3,4)]
  note two = example_second [where web = web and links = links and robots = robots
      and html = html and r = ?r and b = includeDebug and s = ?s1, OF one(1,2,3,4) assms(5)]
  obtain su where su: "parseURL ?P ''https://example.com'' = Some su" "hostname su = ''example.com''"
    using example_urls(4) [of web robots links] by auto
  have "crawl_loop ?P ''example.com'' ?r includeDebug 50 ?s0 =
        crawl_loop ?P ''example.com'' ?r includeDebug 50 ?s1"
    by (simp add: crawl_loop_run initial_state_fields)
  also have "\<dots> = crawl_loop ?P ''example.com'' ?r includeDebug 50 ?s2"
    by (simp add: crawl_loop_run one)
  also have "\<dots> = ?s2"
    by (simp add: crawl_loop_stop two)
  finally have "final_state ?P ''https://example.com'' 50 includeDebug = Some ?s2"
    using su by (simp add: final_state_def)
  then show ?thesis using two by (auto simp: crawlWebsite_def)
qed

theorem example_site_discovered_witness:
  "example_web ''https://example.com'' = Response 200 ''seed page'' \<and>
   example_links ''seed page'' =
     [''https://example.com/a'', ''https://example.com/a#section'',
      ''http://other.com/b'', ''https://example.com/logo.png''] \<and>
   isPathAllowed ''/'' (fetchRobots (simple_platform example_web Failed example_links)
                          ''https://example.com'') \<and>
   example_web ''https://example.com/a'' = Response 200 ''page a'' \<and>
   example_links ''page a'' = [] \<and>
   (\<exists>r. crawlWebsite (simple_platform example_web Failed example_links)
            ''https://example.com'' 50 False = Some r \<and>
        r_discovered r = [''https://example.com/'', ''https://example.com/a''] \<and>
        urlsDiscovered (r_stats r) = 2 \<and>
        (r_visited r = [''https://example.com/''] \<or>
         r_visited r = [''https://example.com/'', ''https://example.com/a'']))"
proof -
  have seed: "example_web ''https://example.com'' = Response 200 ''seed page''"
    by (simp add: example_web_def)
  have status: "(200 :: int) \<le> 200 \<and> (200 :: int) < 300" by simp
  have four: "example_links ''seed page'' =
     [''https://example.com/a'', ''https://example.com/a#section'',
      ''http://other.com/b'', ''https://example.com/logo.png'']"
    by (simp add: example_links_def)
  have allowed: "isPathAllowed ''/'' (fetchRobots (simple_platform example_web Failed example_links)
                          ''https://example.com'')"
    by code_simp
  have a: "example_web ''https://example.com/a'' = Response 200 ''page a''"
    by (simp add: example_web_def)
  have none: "example_links ''page a'' = []"
    by (simp add: example_links_def)
  have leaf: "\<forall>st body. example_web ''https://example.com/a'' = Response st body \<longrightarrow>
                body = ''seed page'' \<or> example_links body = []"
    using a none by simp
  show ?thesis
    using seed four allowed a none
      example_site_discovered [where web = example_web and links = example_links
        and robots = Failed and status = 200 and html = "''seed page''" and includeDebug = False,
        OF seed status four allowed leaf]
    by blast
qed



text \<open>
  C8 as stated fails for the order of the query parameters: the sort compares keys only
  and is stable, so two parameters with the same key stay in the order of the input.
\<close>

theorem normalizeUrl_order_counterexample:
  "parseURL example_platform ''https://example.com/?a=1&a=2'' =
     Some \<lparr>u_scheme = ''https'', u_username = [], u_password = [],
            u_host = Some ''example.com'', u_port = [], u_path = ''/'', u_opaque = False,
            u_query = Some ''a=1&a=2'', u_fragment = None\<rparr> \<and>
   parseURL example_platform ''https://example.com/?a=2&a=1'' =
     Some \<lparr>u_scheme = ''https'', u_username = [], u_password = [],
            u_host = Some ''example.com'', u_port = [], u_path = ''/'', u_opaque = False,
            u_query = Some ''a=2&a=1'', u_fragment = None\<rparr> \<and>
   differ_only example_platform
     \<lparr>u_scheme = ''https'', u_username = [], u_password = [],
      u_host = Some ''example.com'', u_port = [], u_path = ''/'', u_opaque = False,
      u_query = Some ''a=1&a=2'', u_fragment = None\<rparr>
     \<lparr>u_scheme = ''https'', u_username = [], u_password = [],
      u_host = Some ''example.com'', u_port = [], u_path = ''/'', u_opaque = False,
      u_query = Some ''a=2&a=1'', u_fragment = None\<rparr> \<and>
   normalizeUrl example_platform ''https://example.com/?a=1&a=2'' =
     Some ''https://example.com/?a=1&a=2'' \<and>
   normalizeUrl example_platform ''https://example.com/?a=2&a=1'' =
     Some ''https://example.com/?a=2&a=1'' \<and>
   normalizeUrl example_platform ''https://example.com/?a=1&a=2'' \<noteq>
     normalizeUrl example_platform ''https://example.com/?a=2&a=1''"
proof -
  let ?r1 = "\<lparr>u_scheme = ''https'', u_username = [], u_password = [],
      u_host = Some ''example.com'', u_port = [], u_path = ''/'', u_opaque = False,
      u_query = Some ''a=1&a=2'', u_fragment = None\<rparr>"
  let ?r2 = "\<lparr>u_scheme = ''https'', u_username = [], u_password = [],
      u_host = Some ''example.com'', u_port = [], u_path = ''/'', u_opaque = False,
      u_query = Some ''a=2&a=1'', u_fragment = None\<rparr>"
  have p1: "parseURL example_platform ''https://example.com/?a=1&a=2'' = Some ?r1" by code_simp
  have p2: "parseURL example_platform ''https://example.com/?a=2&a=1'' = Some ?r2" by code_simp
  have m1: "remaining_params example_platform ?r1 = [(''a'', ''1''), (''a'', ''2'')]" by code_simp
  have m2: "remaining_params example_platform ?r2 = [(''a'', ''2''), (''a'', ''1'')]" by code_simp
  have np: "normal_port ?r1 = normal_port ?r2" by code_simp
  have d: "differ_only example_platform ?r1 ?r2"
    using np by (simp add: differ_only_def m1 m2)
  have n1: "normalizeUrl example_platform ''https://example.com/?a=1&a=2'' =
              Some ''https://example.com/?a=1&a=2''" by code_simp
  have n2: "normalizeUrl example_platform ''https://example.com/?a=2&a=1'' =
              Some ''https://example.com/?a=2&a=1''" by code_simp
  show ?thesis using p1 p2 d n1 n2 by simp
qed

text \<open>
  C8, amended. Two URLs whose parsed forms differ at most in the fragment, in a default
  port written out (80 for http, 443 for https), in the presence of the tracking
  parameters and in the order of the remaining query parameters get the same output of
  \<open>normalizeUrl\<close>, provided that among the remaining parameters no key occurs twice and
  \<open>localeCompare\<close> ties no two different keys: \<open>a.localeCompare(b) \<le> 0\<close> and
  \<open>b.localeCompare(a) \<le> 0\<close> hold together only for \<open>a = b\<close>. (Parameters whose keys are
  equal or tied keep their relative order, so the order of the input shows in the
  output.) As for C9, \<open>localeCompare\<close> is assumed to order the keys consistently.
\<close>

theorem normalizeUrl_same_output:
  assumes "parseURL P u1 = Some r1" and "parseURL P u2 = Some r2"
    and "differ_only P r1 r2"
    and "distinct (map fst (remaining_params P r1))"
    and "consistent_on (localeCompare P) (fst ` set (remaining_params P r1))"
    and "antisymmetric_on (localeCompare P) (fst ` set (remaining_params P r1))"
  shows "normalizeUrl P u1 = normalizeUrl P u2"
proof -
  have "kept_params P r1 = kept_params P r2"
    using assms(3,4,5,6) by (intro kept_params_equal) (simp_all add: differ_only_def)
  then have "normalized P r1 = normalized P r2"
    using assms(3) by (rule normalized_equal [rotated])
  then show ?thesis using assms(1,2) by (simp add: normalizeUrl_def)
qed

theorem normalizeUrl_same_output_witness:
  "parseURL example_platform ''https://example.com:443/p?b=2&utm_source=x&a=1#top'' =
     Some \<lparr>u_scheme = ''https'', u_username = [], u_password = [],
            u_host = Some ''example.com'', u_port = [], u_path = ''/p'', u_opaque = False,
            u_query = Some ''b=2&utm_source=x&a=1'', u_fragment = Some ''top''\<rparr> \<and>
   parseURL example_platform ''https://example.com/p?a=1&b=2'' =
     Some \<lparr>u_scheme = ''https'', u_username = [], u_password = [],
            u_host = Some ''example.com'', u_port = [], u_path = ''/p'', u_opaque = False,
            u_query = Some ''a=1&b=2'', u_fragment = None\<rparr> \<and>
   remaining_params example_platform
     \<lparr>u_scheme = ''https'', u_username = [], u_password = [],
      u_host = Some ''example.com'', u_port = [], u_path = ''/p'', u_opaque = False,
      u_query = Some ''b=2&utm_source=x&a=1'', u_fragment = Some ''top''\<rparr> =
     [(''b'', ''2''), (''a'', ''1'')] \<and>
   normalizeUrl example_platform ''https://example.com/p?a=1&b=2'' =
     Some ''https://example.com/p?a=1&b=2'' \<and>
   normalizeUrl example_platform ''https://example.com:443/p?b=2&utm_source=x&a=1#top'' =
     normalizeUrl example_platform ''https://example.com/p?a=1&b=2''"
proof -
  let ?r1 = "\<lparr>u_scheme = ''https'', u_username = [], u_password = [],
            u_host = Some ''example.com'', u_port = [], u_path = ''/p'', u_opaque = False,
            u_query = Some ''b=2&utm_source=x&a=1'', u_fragment = Some ''top''\<rparr>"
  let ?r2 = "\<lparr>u_scheme = ''https'', u_username = [], u_password = [],
            u_host = Some ''example.com'', u_port = [], u_path = ''/p'', u_opaque = False,
            u_query = Some ''a=1&b=2'', u_fragment = None\<rparr>"
  have p1: "parseURL example_platform ''https://example.com:443/p?b=2&utm_source=x&a=1#top''
              = Some ?r1" by code_simp
  have p2: "parseURL example_platform ''https://example.com/p?a=1&b=2'' = Some ?r2" by code_simp
  have m1: "remaining_params example_platform ?r1 = [(''b'', ''2''), (''a'', ''1'')]" by code_simp
  have m2: "remaining_params example_platform ?r2 = [(''a'', ''1''), (''b'', ''2'')]" by code_simp
  have np: "normal_port ?r1 = normal_port ?r2" by code_simp
  have d: "differ_only example_platform ?r1 ?r2"
    using np by (simp add: differ_only_def m1 m2)
  have keys: "distinct (map fst (remaining_params example_platform ?r1))"
    by (simp add: m1)
  have order: "consistent_on (localeCompare example_platform)
                 (fst ` set (remaining_params example_platform ?r1))"
    by code_simp
  have ties: "antisymmetric_on (localeCompare example_platform)
                (fst ` set (remaining_params example_platform ?r1))"
    by code_simp
  have n2: "normalizeUrl example_platform ''https://example.com/p?a=1&b=2'' =
              Some ''https://example.com/p?a=1&b=2''" by code_simp
  show ?thesis
    using p1 p2 m1 n2 normalizeUrl_same_output [OF p1 p2 d keys order ties] by simp
qed

end
